theory Spec2Isabelle
  imports Main "HOL-Library.Word"
begin

unbundle bit_operations_syntax

section \<open>Go library functions used by the translator\<close>

text \<open>
  The translator (\<^verbatim>\<open>main.go\<close>, first revision in the file) is a Go program that
  builds assembly text out of byte strings. Strings are modelled as \<^typ>\<open>string\<close>
  (lists of bytes, as a Go string is). The few functions of the Go standard library the
  translator calls are written out here; where one of them reads a string as UTF-8
  text, the characters it looks for are given by their bytes.
\<close>

definition nl :: char where
  "nl = CHR 0x0A"

text \<open>\<^verbatim>\<open>strings.Join(elems, sep)\<close>.\<close>

fun Join :: "string list \<Rightarrow> string \<Rightarrow> string" where
  "Join [] sep = []"
| "Join [x] sep = x"
| "Join (x # y # ys) sep = x @ sep @ Join (y # ys) sep"

text \<open>Decimal digits.\<close>

definition is_digit :: "char \<Rightarrow> bool" where
  "is_digit c = (48 \<le> (of_char c :: nat) \<and> (of_char c :: nat) \<le> 57)"

definition digit_val :: "char \<Rightarrow> nat" where
  "digit_val c = of_char c - 48"

definition digit_char :: "nat \<Rightarrow> char" where
  "digit_char d = ''0123456789'' ! d"

fun digits :: "nat \<Rightarrow> string" where
  "digits n = (if n < 10 then [digit_char n] else digits (n div 10) @ [digit_char (n mod 10)])"

declare digits.simps [simp del]

definition dec_val :: "string \<Rightarrow> nat" where
  "dec_val s = foldl (\<lambda>acc c. 10 * acc + digit_val c) 0 s"

text \<open>\<^verbatim>\<open>strconv.Itoa\<close>, which is also what the verb \<^verbatim>\<open>%d\<close> of \<^verbatim>\<open>fmt.Sprintf\<close> prints.\<close>

definition Itoa :: "int \<Rightarrow> string" where
  "Itoa i = (if i < 0 then CHR ''-'' # digits (nat (- i)) else digits (nat i))"

text \<open>
  Go's \<^verbatim>\<open>int\<close> has 64 bits on the platforms the translator runs on; an arithmetic
  result outside its range wraps around.
\<close>

definition wrap64 :: "int \<Rightarrow> int" where
  "wrap64 i = (i + 2 ^ 63) mod 2 ^ 64 - 2 ^ 63"

text \<open>
  \<^verbatim>\<open>strconv.Atoi\<close> on a 64-bit platform: an optional sign, then one or more decimal
  digits and nothing else; a value outside the range of \<^verbatim>\<open>int\<close> is an error.
\<close>

definition Atoi :: "string \<Rightarrow> int option" where
  "Atoi s =
     (let neg = (s \<noteq> [] \<and> hd s = CHR ''-'');
          ds = (if s \<noteq> [] \<and> (hd s = CHR ''-'' \<or> hd s = CHR ''+'') then tl s else s)
      in if ds = [] \<or> \<not> list_all is_digit ds then None
         else if neg then (if int (dec_val ds) \<le> 2 ^ 63 then Some (- int (dec_val ds)) else None)
         else (if int (dec_val ds) < 2 ^ 63 then Some (int (dec_val ds)) else None))"

text \<open>
  White space. A Go string is a sequence of bytes, and \<^verbatim>\<open>strings.Fields\<close> and
  \<^verbatim>\<open>strings.TrimSpace\<close> read it as UTF-8 text and ask \<^verbatim>\<open>unicode.IsSpace\<close> of every
  character. The one-byte white-space characters are those of the table
  \<^verbatim>\<open>asciiSpace\<close>; the others are U+0085 and U+00A0 (two bytes each), U+1680,
  U+2000 to U+200A, U+2028, U+2029, U+202F, U+205F and U+3000 (three bytes each). A byte
  that starts no valid character is read as the replacement character, one byte wide,
  which is no white space. \<open>space_width s\<close> is the number of bytes of the white-space
  character that \<open>s\<close> starts with, and 0 if \<open>s\<close> starts with none.
\<close>

definition is_space :: "char \<Rightarrow> bool" where
  "is_space c = (c = CHR '' '' \<or> c = CHR 0x09 \<or> c = CHR 0x0A \<or> c = CHR 0x0B
                 \<or> c = CHR 0x0C \<or> c = CHR 0x0D)"

definition space_width :: "string \<Rightarrow> nat" where
  "space_width s =
     (if s = [] then 0
      else if is_space (hd s) then 1
      else if take 2 s = [CHR 0xC2, CHR 0x85] \<or> take 2 s = [CHR 0xC2, CHR 0xA0] then 2
      else if take 3 s = [CHR 0xE1, CHR 0x9A, CHR 0x80] then 3
      else if take 2 s = [CHR 0xE2, CHR 0x80] \<and> 2 < length s \<and>
              (let b = (of_char (s ! 2) :: nat)
               in (128 \<le> b \<and> b \<le> 138) \<or> b = 168 \<or> b = 169 \<or> b = 175) then 3
      else if take 3 s = [CHR 0xE2, CHR 0x81, CHR 0x9F] \<or> take 3 s = [CHR 0xE3, CHR 0x80, CHR 0x80]
      then 3
      else 0)"

text \<open>
  The same for the last character of \<open>s\<close>, as \<^verbatim>\<open>utf8.DecodeLastRuneInString\<close> reads
  it: the number of bytes of the white-space character that \<open>s\<close> ends with, 0 if it ends
  with none.
\<close>

definition last_space_width :: "string \<Rightarrow> nat" where
  "last_space_width s =
     (let n = length s in
      if 1 \<le> n \<and> space_width (drop (n - 1) s) = 1 then 1
      else if 2 \<le> n \<and> space_width (drop (n - 2) s) = 2 then 2
      else if 3 \<le> n \<and> space_width (drop (n - 3) s) = 3 then 3
      else 0)"


text \<open>
  \<^verbatim>\<open>strings.Fields\<close>: the maximal runs of bytes between white-space characters;
  \<open>cur\<close> is the field being read.
\<close>

function fields_acc :: "string \<Rightarrow> string \<Rightarrow> string list" where
  "fields_acc cur s =
     (if s = [] then (if cur = [] then [] else [cur])
      else if 0 < space_width s then
        (if cur = [] then fields_acc [] (drop (space_width s) s)
         else cur # fields_acc [] (drop (space_width s) s))
      else fields_acc (cur @ [hd s]) (tl s))"
  by pat_completeness auto
termination
  by (relation "measure (\<lambda>(cur, s). length s)") auto

declare fields_acc.simps [simp del]

definition Fields :: "string \<Rightarrow> string list" where
  "Fields s = fields_acc [] s"

text \<open>
  \<^verbatim>\<open>strings.TrimSpace\<close>: the white-space characters at the start are removed, then
  those at the end of what is left.
\<close>

function trim_left :: "string \<Rightarrow> string" where
  "trim_left s = (if 0 < space_width s then trim_left (drop (space_width s) s) else s)"
  by pat_completeness auto
termination
  by (relation "measure length") (auto simp: space_width_def split: if_splits)

declare trim_left.simps [simp del]

function trim_right :: "string \<Rightarrow> string" where
  "trim_right s =
     (if 0 < last_space_width s then trim_right (take (length s - last_space_width s) s) else s)"
  by pat_completeness auto
termination
  by (relation "measure length") (auto simp: last_space_width_def Let_def split: if_splits)

declare trim_right.simps [simp del]

definition TrimSpace :: "string \<Rightarrow> string" where
  "TrimSpace s = trim_right (trim_left s)"

text \<open>\<^verbatim>\<open>strings.HasPrefix\<close>.\<close>

definition HasPrefix :: "string \<Rightarrow> string \<Rightarrow> bool" where
  "HasPrefix s p = (take (length p) s = p)"

text \<open>\<^verbatim>\<open>strings.Split(line, "//")[0]\<close>: the part of the line before the first \<^verbatim>\<open>//\<close>.\<close>

fun Split0 :: "string \<Rightarrow> string" where
  "Split0 (a # b # r) = (if a = CHR ''/'' \<and> b = CHR ''/'' then [] else a # Split0 (b # r))"
| "Split0 s = s"

text \<open>
  \<^verbatim>\<open>path.Base\<close>: the last element of a slash-separated path, trailing slashes removed;
  \<^verbatim>\<open>"."\<close> for the empty path and \<^verbatim>\<open>"/"\<close> for a path of slashes only.
\<close>

definition path_Base :: "string \<Rightarrow> string" where
  "path_Base p =
     (if p = [] then ''.''
      else let q = rev (dropWhile (\<lambda>c. c = CHR ''/'') (rev p));
               r = rev (takeWhile (\<lambda>c. c \<noteq> CHR ''/'') (rev q))
           in if r = [] then ''/'' else r)"

text \<open>\<^verbatim>\<open>path.Ext\<close>: the suffix from the last dot of the last path element, or empty.\<close>

definition path_Ext :: "string \<Rightarrow> string" where
  "path_Ext p =
     (let e = rev (takeWhile (\<lambda>c. c \<noteq> CHR ''/'') (rev p))
      in if CHR ''.'' \<in> set e
         then CHR ''.'' # rev (takeWhile (\<lambda>c. c \<noteq> CHR ''.'') (rev e))
         else [])"

section \<open>The translator\<close>

subsection \<open>Global state and errors\<close>

text \<open>
  The package-level variables of \<^verbatim>\<open>main.go\<close>. \<^verbatim>\<open>funcStack\<close> starts as
  \<^verbatim>\<open>{current: "Sys.init", returnCounter: 0}\<close>, the three comparison counters at 0.
  The counters are Go \<^verbatim>\<open>int\<close>s that start at 0 and are only ever incremented;
  they are modelled as natural numbers.
\<close>

record Stack =
  current :: string
  returnCounter :: nat

record globals =
  funcStack :: Stack
  pathToTranslate :: string
  currentFile :: string
  eqCount :: nat
  gtCount :: nat
  ltCount :: nat
  shouldBootstrap :: bool
  shouldEndWithLoop :: bool
  shouldSetStackPointer :: bool

definition initial_globals :: "string \<Rightarrow> bool \<Rightarrow> bool \<Rightarrow> bool \<Rightarrow> globals" where
  "initial_globals p bootstrap setSP endLoop =
     \<lparr> funcStack = \<lparr> current = ''Sys.init'', returnCounter = 0 \<rparr>,
       pathToTranslate = p, currentFile = [],
       eqCount = 0, gtCount = 0, ltCount = 0,
       shouldBootstrap = bootstrap, shouldEndWithLoop = endLoop,
       shouldSetStackPointer = setSP \<rparr>"

text \<open>
  Every way a translation stops: the errors the functions return (which \<^verbatim>\<open>Parse\<close>
  passes to \<^verbatim>\<open>log.Fatal\<close>), the run-time panic of an index out of range, and the
  direct calls of \<^verbatim>\<open>log.Fatal\<close>.
\<close>

datatype error =
    InvalidVars string string
  | InvalidArgs string string
  | InvalidOperation string
  | InvalidCommand "string list"
  | IndexOutOfRange
  | Fatal string

definition locRegister :: string where
  "locRegister = ''@R13''"

definition valueRegister :: string where
  "valueRegister = ''@R14''"

definition getFolderName :: "globals \<Rightarrow> string" where
  "getFolderName g = path_Base (pathToTranslate g)"

text \<open>A block of lines as every emitter returns it: \<^verbatim>\<open>strings.Join(lines, "\n") + "\n"\<close>.\<close>

definition block :: "string list \<Rightarrow> string" where
  "block ls = Join ls [nl] @ [nl]"

subsection \<open>Push and pop\<close>

definition handlePush_lines :: "globals \<Rightarrow> string \<Rightarrow> int \<Rightarrow> string list" where
  "handlePush_lines g segment index =
    (if segment = ''constant'' then
       [''@'' @ Itoa index, ''D=A'', ''@SP'', ''AM=M+1'', ''A=A-1'', ''M=D'']
     else if segment = ''argument'' then
       (if index = 0 then
          [''@ARG'', ''A=M'', ''D=M'', ''@SP'', ''AM=M+1'', ''A=A-1'', ''M=D'']
        else
          [''@'' @ Itoa index, ''D=A'', ''@ARG'', ''A=M'', ''D=D+A'', ''A=D'', ''D=M'',
           ''@SP'', ''AM=M+1'', ''A=A-1'', ''M=D''])
     else if segment = ''local'' then
       (if index = 0 then
          [''@LCL'', ''A=M'', ''D=M'', ''@SP'', ''AM=M+1'', ''A=A-1'', ''M=D'']
        else
          [''@'' @ Itoa index, ''D=A'', ''@LCL'', ''A=M'', ''D=D+A'', ''A=D'', ''D=M'',
           ''@SP'', ''AM=M+1'', ''A=A-1'', ''M=D''])
     else if segment = ''static'' then
       [''@'' @ currentFile g @ ''.'' @ Itoa index, ''D=M'', ''@SP'', ''AM=M+1'', ''A=A-1'', ''M=D'']
     else if segment = ''this'' then
       (if index = 0 then
          [''@THIS'', ''A=M'', ''D=M'', ''@SP'', ''AM=M+1'', ''A=A-1'', ''M=D'']
        else
          [''@'' @ Itoa index, ''D=A'', ''@THIS'', ''A=D+M'', ''D=M'',
           ''@SP'', ''AM=M+1'', ''A=A-1'', ''M=D''])
     else if segment = ''that'' then
       (if index = 0 then
          [''@THAT'', ''A=M'', ''D=M'', ''@SP'', ''AM=M+1'', ''A=A-1'', ''M=D'']
        else
          [''@'' @ Itoa index, ''D=A'', ''@THAT'', ''A=D+M'', ''D=M'',
           ''@SP'', ''AM=M+1'', ''A=A-1'', ''M=D''])
     else if segment = ''pointer'' then
       (if index = 0 then
          [''@THIS'', ''D=M'', ''@SP'', ''AM=M+1'', ''A=A-1'', ''M=D'']
        else if index = 1 then
          [''@THAT'', ''D=M'', ''@SP'', ''AM=M+1'', ''A=A-1'', ''M=D'']
        else [])
     else if segment = ''temp'' then
       [''@'' @ Itoa (wrap64 (index + 5)), ''D=M'', ''@SP'', ''AM=M+1'', ''A=A-1'', ''M=D'']
     else [])"

definition handlePush :: "globals \<Rightarrow> string \<Rightarrow> int \<Rightarrow> string" where
  "handlePush g segment index = block (handlePush_lines g segment index)"

definition handlePop_lines :: "globals \<Rightarrow> string \<Rightarrow> int \<Rightarrow> string list" where
  "handlePop_lines g segment index =
    (if segment = ''argument'' then
       (if index = 0 then
          [''@SP'', ''AM=M-1'', ''D=M'', ''@ARG'', ''A=M'', ''M=D'']
        else
          [''@'' @ Itoa index, ''D=A'', ''@ARG'', ''A=D+M'', ''D=A'', locRegister, ''M=D'',
           ''@SP'', ''AM=M-1'', ''D=M'', locRegister, ''A=M'', ''M=D''])
     else if segment = ''local'' then
       (if index = 0 then
          [''@SP'', ''AM=M-1'', ''D=M'', ''@LCL'', ''A=M'', ''M=D'']
        else
          [''@'' @ Itoa index, ''D=A'', ''@LCL'', ''A=D+M'', ''D=A'', locRegister, ''M=D'',
           ''@SP'', ''AM=M-1'', ''D=M'', locRegister, ''A=M'', ''M=D''])
     else if segment = ''static'' then
       [''@SP'', ''AM=M-1'', ''D=M'', ''@'' @ currentFile g @ ''.'' @ Itoa index, ''M=D'']
     else if segment = ''this'' then
       (if index = 0 then
          [''@SP'', ''AM=M-1'', ''D=M'', ''@THIS'', ''A=M'', ''M=D'']
        else
          [''@'' @ Itoa index, ''D=A'', ''@THIS'', ''A=D+M'', ''D=A'', locRegister, ''M=D'',
           ''@SP'', ''AM=M-1'', ''D=M'', locRegister, ''A=M'', ''M=D''])
     else if segment = ''that'' then
       (if index = 0 then
          [''@SP'', ''AM=M-1'', ''D=M'', ''@THAT'', ''A=M'', ''M=D'']
        else
          [''@'' @ Itoa index, ''D=A'', ''@THAT'', ''A=D+M'', ''D=A'', locRegister, ''M=D'',
           ''@SP'', ''AM=M-1'', ''D=M'', locRegister, ''A=M'', ''M=D''])
     else if segment = ''pointer'' then
       (if index = 0 then
          [''@SP'', ''AM=M-1'', ''D=M'', ''@THIS'', ''M=D'']
        else if index = 1 then
          [''@SP'', ''AM=M-1'', ''D=M'', ''@THAT'', ''M=D'']
        else [])
     else if segment = ''temp'' then
       [''@SP'', ''AM=M-1'', ''D=M'', ''@'' @ Itoa (wrap64 (index + 5)), ''M=D'']
     else [])"

definition handlePop :: "globals \<Rightarrow> string \<Rightarrow> int \<Rightarrow> string" where
  "handlePop g segment index = block (handlePop_lines g segment index)"

subsection \<open>Functions, calls and returns\<close>

text \<open>
  \<^verbatim>\<open>function(name, nVars)\<close>: sets the current function, emits the entry label and
  one zeroing push per local variable.
\<close>

definition initLocalVariable :: "string list" where
  "initLocalVariable = [''@SP'', ''A=M'', ''M=0'', ''@SP'', ''M=M+1'']"

definition function_lines :: "globals \<Rightarrow> string \<Rightarrow> int \<Rightarrow> string list" where
  "function_lines g name numVars =
     [''('' @ getFolderName g @ ''.'' @ name @ '')'']
     @ concat (replicate (nat numVars) initLocalVariable)"

definition function_cmd :: "globals \<Rightarrow> string \<Rightarrow> string \<Rightarrow> error + (string \<times> globals)" where
  "function_cmd g name nVars =
     (case Atoi nVars of
        None \<Rightarrow> Inl (InvalidVars name nVars)
      | Some numVars \<Rightarrow>
          Inr (block (function_lines g name numVars),
               g\<lparr>funcStack := (funcStack g)\<lparr>current := name\<rparr>\<rparr>))"

definition returnLabel :: "globals \<Rightarrow> string" where
  "returnLabel g =
     getFolderName g @ ''.'' @ current (funcStack g) @ ''$ret''
       @ Itoa (int (returnCounter (funcStack g)))"

definition callFunction_lines :: "globals \<Rightarrow> string \<Rightarrow> int \<Rightarrow> string list" where
  "callFunction_lines g name numArgs =
     [''@'' @ getFolderName g @ ''.'' @ name, ''D=A'', locRegister, ''M=D'',
      ''@'' @ Itoa numArgs, ''D=A'', valueRegister, ''M=D'',
      ''@'' @ returnLabel g, ''D=A'',
      ''@CALL'', ''0;JMP'',
      ''('' @ returnLabel g @ '')'']"

definition callFunction :: "globals \<Rightarrow> string \<Rightarrow> string \<Rightarrow> error + (string \<times> globals)" where
  "callFunction g name nArgs =
     (case Atoi nArgs of
        None \<Rightarrow> Inl (InvalidArgs name nArgs)
      | Some numArgs \<Rightarrow>
          Inr (block (callFunction_lines g name numArgs),
               g\<lparr>funcStack := (funcStack g)\<lparr>returnCounter := returnCounter (funcStack g) + 1\<rparr>\<rparr>))"

definition returnFromFunction_lines :: "string list" where
  "returnFromFunction_lines = [''@RETURN'', ''0;JMP'']"

definition returnFromFunction :: string where
  "returnFromFunction = block returnFromFunction_lines"

subsection \<open>Branching\<close>

definition constructedLabel :: "globals \<Rightarrow> string \<Rightarrow> string" where
  "constructedLabel g l = current (funcStack g) @ ''$'' @ l"

definition gotoLabel :: "globals \<Rightarrow> string \<Rightarrow> string" where
  "gotoLabel g l = block [''@'' @ constructedLabel g l, ''0;JMP'']"

definition ifGoto :: "globals \<Rightarrow> string \<Rightarrow> string" where
  "ifGoto g l = block [''@SP'', ''AM=M-1'', ''D=M'', ''@'' @ constructedLabel g l, ''D;JNE'']"

definition label :: "globals \<Rightarrow> string \<Rightarrow> string" where
  "label g l = ''('' @ constructedLabel g l @ '')'' @ [nl]"

subsection \<open>Arithmetic and logic\<close>

text \<open>These return their lines joined, without a final newline; the caller adds it.\<close>

definition add_lines :: "string list" where
  "add_lines = [''@SP'', ''AM=M-1'', ''D=M'', ''A=A-1'', ''M=D+M'']"

definition add :: string where
  "add = Join add_lines [nl]"

definition sub_lines :: "string list" where
  "sub_lines = [''@SP'', ''AM=M-1'', ''D=M'', ''A=A-1'', ''M=M-D'']"

definition sub :: string where
  "sub = Join sub_lines [nl]"

definition neg_lines :: "string list" where
  "neg_lines = [''@SP'', ''AM=M-1'', ''M=-M'', ''@SP'', ''M=M+1'']"

definition neg :: string where
  "neg = Join neg_lines [nl]"

definition eq_lines :: "globals \<Rightarrow> string list" where
  "eq_lines g =
     [''@'' @ ''RET_ADDRESS_EQ'' @ Itoa (int (eqCount g)), ''D=A'', ''@EQ'', ''0;JMP'',
      ''('' @ ''RET_ADDRESS_EQ'' @ Itoa (int (eqCount g)) @ '')'']"

definition eq :: "globals \<Rightarrow> string \<times> globals" where
  "eq g = (Join (eq_lines g) [nl], g\<lparr>eqCount := eqCount g + 1\<rparr>)"

definition gt_lines :: "globals \<Rightarrow> string list" where
  "gt_lines g =
     [''@'' @ ''RET_ADDRESS_GT'' @ Itoa (int (gtCount g)), ''D=A'', ''@GT'', ''0;JMP'',
      ''('' @ ''RET_ADDRESS_GT'' @ Itoa (int (gtCount g)) @ '')'']"

definition gt :: "globals \<Rightarrow> string \<times> globals" where
  "gt g = (Join (gt_lines g) [nl], g\<lparr>gtCount := gtCount g + 1\<rparr>)"

definition lt_lines :: "globals \<Rightarrow> string list" where
  "lt_lines g =
     [''@'' @ ''RET_ADDRESS_LT'' @ Itoa (int (ltCount g)), ''D=A'', ''@LT'', ''0;JMP'',
      ''('' @ ''RET_ADDRESS_LT'' @ Itoa (int (ltCount g)) @ '')'']"

definition lt :: "globals \<Rightarrow> string \<times> globals" where
  "lt g = (Join (lt_lines g) [nl], g\<lparr>ltCount := ltCount g + 1\<rparr>)"

definition and_lines :: "string list" where
  "and_lines = [''@SP'', ''AM=M-1'', ''D=M'', ''A=A-1'', ''M=D&M'']"

definition and_op :: string where
  "and_op = Join and_lines [nl]"

definition or_lines :: "string list" where
  "or_lines = [''@SP'', ''AM=M-1'', ''D=M'', ''A=A-1'', ''M=D|M'']"

definition or_op :: string where
  "or_op = Join or_lines [nl]"

definition not_lines :: "string list" where
  "not_lines = [''@SP'', ''AM=M-1'', ''M=!M'', ''@SP'', ''M=M+1'']"

definition not_op :: string where
  "not_op = Join not_lines [nl]"

definition operation :: "globals \<Rightarrow> string \<Rightarrow> error + (string \<times> globals)" where
  "operation g op =
     (if op = ''add'' then Inr (add, g)
      else if op = ''sub'' then Inr (sub, g)
      else if op = ''neg'' then Inr (neg, g)
      else if op = ''eq'' then Inr (eq g)
      else if op = ''gt'' then Inr (gt g)
      else if op = ''lt'' then Inr (lt g)
      else if op = ''and'' then Inr (and_op, g)
      else if op = ''or'' then Inr (or_op, g)
      else if op = ''not'' then Inr (not_op, g)
      else Inl (InvalidOperation op))"

subsection \<open>The shared routines\<close>

definition createReturnRoutine_lines :: "string list" where
  "createReturnRoutine_lines =
     [''(RETURN)'',
      ''@5'', ''D=A'', ''@LCL'', ''A=M-D'', ''D=M'',
      locRegister, ''M=D'',
      ''@SP'', ''M=M-1'', ''A=M'', ''D=M'', ''@ARG'', ''A=M'', ''M=D'',
      ''@ARG'', ''D=M+1'', ''@SP'', ''M=D'',
      ''@LCL'', ''A=M-1'', ''D=M'', ''@THAT'', ''M=D'',
      ''@LCL'', ''D=M'', ''@2'', ''D=D-A'', ''A=D'', ''D=M'', ''@THIS'', ''M=D'',
      ''@LCL'', ''D=M'', ''@3'', ''D=D-A'', ''A=D'', ''D=M'', ''@ARG'', ''M=D'',
      ''@LCL'', ''D=M'', ''@4'', ''D=D-A'', ''A=D'', ''D=M'', ''@LCL'', ''M=D'',
      locRegister, ''A=M'', ''0;JMP'']"

definition createReturnRoutine :: "string list" where
  "createReturnRoutine = [block createReturnRoutine_lines]"

definition createCallRoutine_lines :: "string list" where
  "createCallRoutine_lines =
     [''(CALL)'',
      ''@SP'', ''A=M'', ''M=D'', ''@SP'', ''M=M+1'',
      ''@LCL'', ''D=M'', ''@SP'', ''A=M'', ''M=D'', ''@SP'', ''M=M+1'',
      ''@ARG'', ''D=M'', ''@SP'', ''A=M'', ''M=D'', ''@SP'', ''M=M+1'',
      ''@THIS'', ''D=M'', ''@SP'', ''A=M'', ''M=D'', ''@SP'', ''M=M+1'',
      ''@THAT'', ''D=M'', ''@SP'', ''A=M'', ''M=D'', ''@SP'', ''M=M+1'',
      ''@SP'', ''D=M'', valueRegister, ''D=D-M'', ''@5'', ''D=D-A'', ''@ARG'', ''M=D'',
      ''@SP'', ''D=M'', ''@LCL'', ''M=D'',
      locRegister, ''A=M'', ''0;JMP'']"

definition createCallRoutine :: "string list" where
  "createCallRoutine = [block createCallRoutine_lines]"

definition createLtRoutine_lines :: "string list" where
  "createLtRoutine_lines =
     [''(LT)'', ''@R15'', ''M=D'',
      ''@SP'', ''AM=M-1'', ''D=M'', ''@SP'', ''AM=M-1'', ''D=M-D'', ''M=0'', ''@END_LT'', ''D;JGE'',
      ''@SP'', ''A=M'', ''M=-1'',
      ''(END_LT)'',
      ''@SP'', ''M=M+1'',
      ''@R15'', ''A=M'', ''0;JMP'']"

definition createLtRoutine :: "string list" where
  "createLtRoutine = [block createLtRoutine_lines]"

definition createGtRoutine_lines :: "string list" where
  "createGtRoutine_lines =
     [''(GT)'', ''@R15'', ''M=D'',
      ''@SP'', ''AM=M-1'', ''D=M'', ''@SP'', ''AM=M-1'', ''D=M-D'', ''M=0'', ''@END_GT'', ''D;JLE'',
      ''@SP'', ''A=M'', ''M=-1'',
      ''(END_GT)'',
      ''@SP'', ''M=M+1'',
      ''@R15'', ''A=M'', ''0;JMP'']"

definition createGtRoutine :: "string list" where
  "createGtRoutine = [block createGtRoutine_lines]"

definition createEqRoutine_lines :: "string list" where
  "createEqRoutine_lines =
     [''(EQ)'', ''@R15'', ''M=D'',
      ''@SP'', ''AM=M-1'', ''D=M'', ''@SP'', ''AM=M-1'', ''D=M-D'', ''M=0'', ''@END_EQ'', ''D;JNE'',
      ''@SP'', ''A=M'', ''M=-1'',
      ''(END_EQ)'',
      ''@SP'', ''M=M+1'',
      ''@R15'', ''A=M'', ''0;JMP'']"

definition createEqRoutine :: "string list" where
  "createEqRoutine = [block createEqRoutine_lines]"

definition prependFunctions :: "string list \<Rightarrow> string list" where
  "prependFunctions instructions =
     createReturnRoutine @ createCallRoutine @ createLtRoutine @ createGtRoutine
       @ createEqRoutine @ instructions"

definition prependStartInstructions :: "globals \<Rightarrow> string list \<Rightarrow> string list" where
  "prependStartInstructions g instructions =
     (let setStackPointer = block [''@256'', ''D=A'', ''@SP'', ''M=D''];
          start = block [''@START'', ''0;JMP'']
      in if shouldSetStackPointer g then [setStackPointer, start] @ instructions
         else [start] @ instructions)"

subsection \<open>Parsing commands, files and folders\<close>

text \<open>
  \<^verbatim>\<open>parseCommand\<close>. Indexing \<^verbatim>\<open>command[i]\<close> beyond the fields of the line panics;
  the model returns \<^const>\<open>IndexOutOfRange\<close> there. Every function that returns an
  error does so before it changes a global, so an error carries no state.
\<close>

definition parseCommand :: "globals \<Rightarrow> string \<Rightarrow> error + (string \<times> globals)" where
  "parseCommand g line =
     (let command = Fields line in
      if command = [] then Inl IndexOutOfRange
      else let first = command ! 0 in
      if first = ''function'' then
        (if length command < 3 then Inl IndexOutOfRange
         else function_cmd g (command ! 1) (command ! 2))
      else if first = ''call'' then
        (if length command < 3 then Inl IndexOutOfRange
         else callFunction g (command ! 1) (command ! 2))
      else if first = ''return'' then Inr (returnFromFunction, g)
      else if first = ''goto'' then
        (if length command < 2 then Inl IndexOutOfRange else Inr (gotoLabel g (command ! 1), g))
      else if first = ''if-goto'' then
        (if length command < 2 then Inl IndexOutOfRange else Inr (ifGoto g (command ! 1), g))
      else if first = ''label'' then
        (if length command < 2 then Inl IndexOutOfRange else Inr (label g (command ! 1), g))
      else if length command = 1 then
        (case operation g (command ! 0) of
           Inl e \<Rightarrow> Inl e
         | Inr (text, g') \<Rightarrow> Inr (text @ [nl], g'))
      else if length command < 3 then Inl IndexOutOfRange
      else
        (case Atoi (command ! 2) of
           Some num \<Rightarrow>
             (let second = command ! 1 in
              if command ! 0 = ''push'' then Inr (handlePush g second num, g)
              else if command ! 0 = ''pop'' then Inr (handlePop g second num, g)
              else Inl (InvalidCommand command))
         | None \<Rightarrow> Inl (InvalidCommand command)))"

text \<open>
  \<^verbatim>\<open>Parser.Parse\<close> over the lines the scanner yields: blank lines and comment lines
  are skipped, a trailing comment is cut, and the first error ends the run
  (\<^verbatim>\<open>log.Fatal\<close>).
\<close>

fun Parse :: "globals \<Rightarrow> string list \<Rightarrow> error + (string list \<times> globals)" where
  "Parse g [] = Inr ([], g)"
| "Parse g (raw # rest) =
     (let line = TrimSpace raw in
      if HasPrefix line ''//'' \<or> line = [] then Parse g rest
      else
        (case parseCommand g (TrimSpace (Split0 line)) of
           Inl e \<Rightarrow> Inl e
         | Inr (output, g') \<Rightarrow>
             (case Parse g' rest of
                Inl e \<Rightarrow> Inl e
              | Inr (instructions, g'') \<Rightarrow> Inr (output # instructions, g''))))"

text \<open>
  \<^verbatim>\<open>parseFile\<close>, with the content of the file passed in as its lines. The check
  \<^verbatim>\<open>strings.HasPrefix(fileName, strings.ToUpper(fileName[:1]))\<close> looks at the first byte
  of the name: an ASCII byte passes unless it is a lower-case letter; any other byte is
  no valid UTF-8 text on its own, \<^verbatim>\<open>ToUpper\<close> turns it into the replacement character
  (the bytes EF BF BD), and the check passes only if the name starts with these three
  bytes. The name must end in \<^verbatim>\<open>.vm\<close>; \<^verbatim>\<open>currentFile\<close> becomes its base name.
\<close>

definition starts_upper :: "string \<Rightarrow> bool" where
  "starts_upper fileName =
     (let c = (of_char (hd fileName) :: nat) in
      if c < 128 then \<not> (97 \<le> c \<and> c \<le> 122)
      else take 3 fileName = [CHR 0xEF, CHR 0xBF, CHR 0xBD])"

definition parseFile :: "globals \<Rightarrow> string \<Rightarrow> string list \<Rightarrow> error + (string list \<times> globals)" where
  "parseFile g fileName content =
     (if fileName = [] then Inl IndexOutOfRange
      else if \<not> starts_upper fileName then Inl (Fatal ''file must start with an uppercase letter'')
      else if path_Ext fileName \<noteq> ''.vm'' then Inl (Fatal ''file must have .vm extension'')
      else Parse (g\<lparr>currentFile := path_Base fileName\<rparr>) content)"

fun parseFiles :: "globals \<Rightarrow> (string \<times> string list) list \<Rightarrow> error + (string list \<times> globals)" where
  "parseFiles g [] = Inr ([], g)"
| "parseFiles g ((fileName, content) # files) =
     (case parseFile g fileName content of
        Inl e \<Rightarrow> Inl e
      | Inr (ls, g') \<Rightarrow>
          (case parseFiles g' files of
             Inl e \<Rightarrow> Inl e
           | Inr (instructions, g'') \<Rightarrow> Inr (ls @ instructions, g'')))"

text \<open>
  \<^verbatim>\<open>loadFolder\<close>, with the files the glob \<^verbatim>\<open>folderName/*.vm\<close> finds passed in as pairs
  of a path and the lines of the file.
\<close>

definition startLabel :: string where
  "startLabel = ''(START)'' @ [nl]"

definition infiniteLoop :: string where
  "infiniteLoop = block [''(INFINITE_LOOP)'', ''@INFINITE_LOOP'', ''0;JMP'']"

definition loadFolder :: "globals \<Rightarrow> (string \<times> string list) list \<Rightarrow> error + (string list \<times> globals)" where
  "loadFolder g files =
     (if files = [] then Inl (Fatal ''no .vm files found in folder'')
      else
        (case (if shouldBootstrap g
               then (case callFunction g ''Sys.init'' ''0'' of
                       Inl e \<Rightarrow> Inl e
                     | Inr (init, g') \<Rightarrow> Inr ([startLabel, init], g'))
               else Inr ([startLabel], g)) of
           Inl e \<Rightarrow> Inl e
         | Inr (instructions, g') \<Rightarrow>
             (case parseFiles g' files of
                Inl e \<Rightarrow> Inl e
              | Inr (ls, g'') \<Rightarrow>
                  (let all = prependStartInstructions g'' (prependFunctions (instructions @ ls))
                   in Inr (if shouldEndWithLoop g'' then all @ [infiniteLoop] else all, g'')))))"

section \<open>The target machine\<close>

text \<open>
  The translator emits assembly for the Hack computer. Its output is read by an
  assembler and run by the machine, neither of which is part of the repository; they are
  modelled here after the Hack platform: a 16-bit machine with the registers \<open>A\<close> and
  \<open>D\<close>, a data memory addressed by \<open>A\<close> (\<open>M\<close> is the word at address \<open>A\<close>) and a
  program memory of at most 32768 instructions. The data memory is taken as one word for
  every 16-bit address.
\<close>

subsection \<open>Assembly text\<close>

text \<open>The lines of a text: the maximal runs of characters other than newline.\<close>

fun lines_acc :: "string \<Rightarrow> string \<Rightarrow> string list" where
  "lines_acc cur [] = (if cur = [] then [] else [cur])"
| "lines_acc cur (c # cs) =
     (if c = nl then (if cur = [] then lines_acc [] cs else cur # lines_acc [] cs)
      else lines_acc (cur @ [c]) cs)"

definition lines_of :: "string \<Rightarrow> string list" where
  "lines_of s = lines_acc [] s"

text \<open>
  The program text the translator writes: \<^verbatim>\<open>save\<close> writes the blocks one after the
  other into the output file.
\<close>

definition program_lines :: "string list \<Rightarrow> string list" where
  "program_lines instructions = lines_of (concat instructions)"

datatype comp =
    Zero | One | MinusOne | ValD | ValA | ValM | NotD | NotA | NotM | NegD | NegA | NegM
  | IncD | IncA | IncM | DecD | DecA | DecM | DplusA | DplusM | DminusA | DminusM
  | AminusD | MminusD | DandA | DandM | DorA | DorM

datatype jump = NoJump | JGT | JEQ | JGE | JLT | JNE | JLE | JMP

text \<open>A destination: whether the result is stored in \<open>A\<close>, in \<open>D\<close>, in \<open>M\<close>.\<close>

datatype dest = Dest bool bool bool

datatype asm_line = ALabel string | AAt string | AComp comp dest jump

definition comp_table :: "(string \<times> comp) list" where
  "comp_table =
     [(''0'', Zero), (''1'', One), (''-1'', MinusOne), (''D'', ValD), (''A'', ValA), (''M'', ValM),
      (''!D'', NotD), (''!A'', NotA), (''!M'', NotM), (''-D'', NegD), (''-A'', NegA), (''-M'', NegM),
      (''D+1'', IncD), (''A+1'', IncA), (''M+1'', IncM), (''D-1'', DecD), (''A-1'', DecA),
      (''M-1'', DecM), (''D+A'', DplusA), (''D+M'', DplusM), (''D-A'', DminusA), (''D-M'', DminusM),
      (''A-D'', AminusD), (''M-D'', MminusD), (''D&A'', DandA), (''D&M'', DandM),
      (''D|A'', DorA), (''D|M'', DorM)]"

definition dest_table :: "(string \<times> dest) list" where
  "dest_table =
     [(''M'', Dest False False True), (''D'', Dest False True False),
      (''MD'', Dest False True True), (''A'', Dest True False False),
      (''AM'', Dest True False True), (''AD'', Dest True True False),
      (''AMD'', Dest True True True)]"

definition jump_table :: "(string \<times> jump) list" where
  "jump_table =
     [(''JGT'', JGT), (''JEQ'', JEQ), (''JGE'', JGE), (''JLT'', JLT), (''JNE'', JNE),
      (''JLE'', JLE), (''JMP'', JMP)]"

text \<open>
  One line of assembly: a label \<^verbatim>\<open>(SYMBOL)\<close>, an address instruction \<^verbatim>\<open>@SYMBOL\<close>, or a
  compute instruction \<^verbatim>\<open>dest=comp;jump\<close> with \<^verbatim>\<open>dest=\<close> and \<^verbatim>\<open>;jump\<close> optional.
\<close>

definition parse_compute :: "string \<Rightarrow> asm_line option" where
  "parse_compute s =
     (let d = (if CHR ''='' \<in> set s then map_of dest_table (takeWhile (\<lambda>c. c \<noteq> CHR ''='') s)
               else Some (Dest False False False));
          r = (if CHR ''='' \<in> set s then tl (dropWhile (\<lambda>c. c \<noteq> CHR ''='') s) else s);
          c = map_of comp_table (takeWhile (\<lambda>c. c \<noteq> CHR '';'') r);
          j = (if CHR '';'' \<in> set r then map_of jump_table (tl (dropWhile (\<lambda>c. c \<noteq> CHR '';'') r))
               else Some NoJump)
      in case (d, c, j) of
           (Some d', Some c', Some j') \<Rightarrow> Some (AComp c' d' j')
         | _ \<Rightarrow> None)"

definition parse_line :: "string \<Rightarrow> asm_line option" where
  "parse_line s =
     (case s of
        [] \<Rightarrow> None
      | c # r \<Rightarrow>
          if c = CHR ''('' then
            (if r \<noteq> [] \<and> last r = CHR '')'' \<and> butlast r \<noteq> [] then Some (ALabel (butlast r)) else None)
          else if c = CHR ''@'' then (if r = [] then None else Some (AAt r))
          else parse_compute s)"

subsection \<open>The assembler\<close>

text \<open>The predefined symbols of the platform.\<close>

definition predefined :: "(string \<times> nat) list" where
  "predefined =
     [(''SP'', 0), (''LCL'', 1), (''ARG'', 2), (''THIS'', 3), (''THAT'', 4),
      (''R0'', 0), (''R1'', 1), (''R2'', 2), (''R3'', 3), (''R4'', 4), (''R5'', 5), (''R6'', 6),
      (''R7'', 7), (''R8'', 8), (''R9'', 9), (''R10'', 10), (''R11'', 11), (''R12'', 12),
      (''R13'', 13), (''R14'', 14), (''R15'', 15), (''SCREEN'', 16384), (''KBD'', 24576)]"

definition numeric :: "string \<Rightarrow> bool" where
  "numeric s = (s \<noteq> [] \<and> list_all is_digit s)"

text \<open>
  The value of a symbol that is a decimal constant, a predefined symbol or a label of the
  program; any other symbol is a variable.
\<close>

definition resolve :: "(string \<rightharpoonup> nat) \<Rightarrow> string \<Rightarrow> nat option" where
  "resolve labels s =
     (if numeric s then Some (dec_val s)
      else case map_of predefined s of Some a \<Rightarrow> Some a | None \<Rightarrow> labels s)"

text \<open>
  First pass: every label stands for the address of the next instruction. A label
  defined twice is an error.
\<close>

fun pass1 :: "asm_line list \<Rightarrow> nat \<Rightarrow> (string \<rightharpoonup> nat) \<Rightarrow> (string \<rightharpoonup> nat) option" where
  "pass1 [] n t = Some t"
| "pass1 (ALabel l # ls) n t = (if t l \<noteq> None then None else pass1 ls n (t(l \<mapsto> n)))"
| "pass1 (AAt v # ls) n t = pass1 ls (Suc n) t"
| "pass1 (AComp c d j # ls) n t = pass1 ls (Suc n) t"

datatype instr = AInstr "16 word" | CInstr comp dest jump

text \<open>
  Second pass: the instructions, in order. A variable gets the next free address from 16
  on at its first use. The operand of an address instruction has 15 bits.
\<close>

definition address_instr :: "nat \<Rightarrow> instr option" where
  "address_instr a = (if a < 32768 then Some (AInstr (word_of_nat a)) else None)"

fun pass2 :: "(string \<rightharpoonup> nat) \<Rightarrow> (string \<times> nat) list \<Rightarrow> asm_line list \<Rightarrow> instr list option" where
  "pass2 labels vars [] = Some []"
| "pass2 labels vars (ALabel l # ls) = pass2 labels vars ls"
| "pass2 labels vars (AComp c d j # ls) =
     map_option (Cons (CInstr c d j)) (pass2 labels vars ls)"
| "pass2 labels vars (AAt v # ls) =
     (case resolve labels v of
        Some a \<Rightarrow>
          (case address_instr a of
             None \<Rightarrow> None
           | Some i \<Rightarrow> map_option (Cons i) (pass2 labels vars ls))
      | None \<Rightarrow>
          (case map_of vars v of
             Some a \<Rightarrow>
               (case address_instr a of
                  None \<Rightarrow> None
                | Some i \<Rightarrow> map_option (Cons i) (pass2 labels vars ls))
           | None \<Rightarrow>
               (case address_instr (16 + length vars) of
                  None \<Rightarrow> None
                | Some i \<Rightarrow> map_option (Cons i) (pass2 labels ((v, 16 + length vars) # vars) ls))))"

text \<open>The lines of a program as the assembler reads them.\<close>

definition parsed :: "string list \<Rightarrow> asm_line list" where
  "parsed ls = map (\<lambda>l. the (parse_line l)) ls"

definition assemble :: "string list \<Rightarrow> instr list option" where
  "assemble prog =
     (if list_all (\<lambda>l. parse_line l \<noteq> None) prog then
        (let ls = parsed prog in
         case pass1 ls 0 Map.empty of
           None \<Rightarrow> None
         | Some labels \<Rightarrow>
             (case pass2 labels [] ls of
                None \<Rightarrow> None
              | Some rom \<Rightarrow> if length rom \<le> 32768 then Some rom else None))
      else None)"

subsection \<open>The processor\<close>

record state =
  areg :: "16 word"
  dreg :: "16 word"
  ram :: "16 word \<Rightarrow> 16 word"
  pc :: nat

fun comp_val :: "comp \<Rightarrow> 16 word \<Rightarrow> 16 word \<Rightarrow> 16 word \<Rightarrow> 16 word" where
  "comp_val Zero a d m = 0"
| "comp_val One a d m = 1"
| "comp_val MinusOne a d m = - 1"
| "comp_val ValD a d m = d"
| "comp_val ValA a d m = a"
| "comp_val ValM a d m = m"
| "comp_val NotD a d m = NOT d"
| "comp_val NotA a d m = NOT a"
| "comp_val NotM a d m = NOT m"
| "comp_val NegD a d m = - d"
| "comp_val NegA a d m = - a"
| "comp_val NegM a d m = - m"
| "comp_val IncD a d m = d + 1"
| "comp_val IncA a d m = a + 1"
| "comp_val IncM a d m = m + 1"
| "comp_val DecD a d m = d - 1"
| "comp_val DecA a d m = a - 1"
| "comp_val DecM a d m = m - 1"
| "comp_val DplusA a d m = d + a"
| "comp_val DplusM a d m = d + m"
| "comp_val DminusA a d m = d - a"
| "comp_val DminusM a d m = d - m"
| "comp_val AminusD a d m = a - d"
| "comp_val MminusD a d m = m - d"
| "comp_val DandA a d m = d AND a"
| "comp_val DandM a d m = d AND m"
| "comp_val DorA a d m = d OR a"
| "comp_val DorM a d m = d OR m"

text \<open>A jump compares the computed value, read as two's complement, with zero.\<close>

fun jump_taken :: "jump \<Rightarrow> 16 word \<Rightarrow> bool" where
  "jump_taken NoJump v = False"
| "jump_taken JGT v = (0 < sint v)"
| "jump_taken JEQ v = (v = 0)"
| "jump_taken JGE v = (0 \<le> sint v)"
| "jump_taken JLT v = (sint v < 0)"
| "jump_taken JNE v = (v \<noteq> 0)"
| "jump_taken JLE v = (sint v \<le> 0)"
| "jump_taken JMP v = True"

text \<open>
  One instruction. A compute instruction reads \<open>A\<close>, \<open>D\<close> and \<open>M\<close> as they are before
  it, stores the result in its destinations (\<open>M\<close> being the word at the old \<open>A\<close>) and
  jumps to the old \<open>A\<close> if its jump condition holds.
\<close>

fun exec_instr :: "instr \<Rightarrow> state \<Rightarrow> state" where
  "exec_instr (AInstr v) s = s\<lparr>areg := v, pc := pc s + 1\<rparr>"
| "exec_instr (CInstr c (Dest da dd dm) j) s =
     (let v = comp_val c (areg s) (dreg s) (ram s (areg s)) in
      \<lparr> areg = (if da then v else areg s),
        dreg = (if dd then v else dreg s),
        ram = (if dm then (ram s)(areg s := v) else ram s),
        pc = (if jump_taken j v then unat (areg s) else pc s + 1) \<rparr>)"

definition step :: "instr list \<Rightarrow> state \<Rightarrow> state option" where
  "step rom s = (if pc s < length rom then Some (exec_instr (rom ! pc s) s) else None)"

text \<open>\<open>exec n\<close> runs exactly \<open>n\<close> instructions; it fails when the program counter leaves
  the program.\<close>

fun exec :: "nat \<Rightarrow> instr list \<Rightarrow> state \<Rightarrow> state option" where
  "exec 0 rom s = Some s"
| "exec (Suc n) rom s = (case step rom s of None \<Rightarrow> None | Some s' \<Rightarrow> exec n rom s')"

subsection \<open>Code inside a program\<close>

text \<open>
  \<open>code_at prog p blk\<close>: the lines \<open>blk\<close> stand in the program text \<open>prog\<close>, one after
  the other, and the first instruction among them has the address \<open>p\<close> (the number of
  instructions before them; a label line is no instruction).
\<close>

definition instr_count :: "string list \<Rightarrow> nat" where
  "instr_count ls = length (filter (\<lambda>l. \<not> HasPrefix l ''('') ls)"

definition code_at :: "string list \<Rightarrow> nat \<Rightarrow> string list \<Rightarrow> bool" where
  "code_at prog p blk = (\<exists>pre post. prog = pre @ blk @ post \<and> instr_count pre = p)"

text \<open>\<open>rom_has rom p ins\<close>: the instructions \<open>ins\<close> stand in the program memory from
  address \<open>p\<close> on.\<close>

definition rom_has :: "instr list \<Rightarrow> nat \<Rightarrow> instr list \<Rightarrow> bool" where
  "rom_has rom p ins = (take (length ins) (drop p rom) = ins \<and> p + length ins \<le> length rom)"

text \<open>The table of labels of a program.\<close>

definition label_table :: "string list \<Rightarrow> (string \<rightharpoonup> nat)" where
  "label_table prog = the (pass1 (parsed prog) 0 Map.empty)"

fun is_label :: "asm_line \<Rightarrow> bool" where
  "is_label (ALabel l) = True"
| "is_label (AAt v) = False"
| "is_label (AComp c d j) = False"

text \<open>The instructions of lines whose symbols are all constants, predefined or labels.\<close>

fun known_instrs :: "(string \<rightharpoonup> nat) \<Rightarrow> asm_line list \<Rightarrow> instr list option" where
  "known_instrs labels [] = Some []"
| "known_instrs labels (ALabel l # ls) = known_instrs labels ls"
| "known_instrs labels (AComp c d j # ls) =
     map_option (Cons (CInstr c d j)) (known_instrs labels ls)"
| "known_instrs labels (AAt v # ls) =
     (case resolve labels v of
        None \<Rightarrow> None
      | Some a \<Rightarrow> map_option (Cons (AInstr (word_of_nat a))) (known_instrs labels ls))"

definition n_ins :: "asm_line list \<Rightarrow> nat" where
  "n_ins ls = length (filter (\<lambda>l. \<not> is_label l) ls)"

text \<open>A run of instructions none of which jumps, as a function on states.\<close>

definition run :: "instr list \<Rightarrow> state \<Rightarrow> state" where
  "run ins s = fold exec_instr ins s"

fun no_jump :: "instr \<Rightarrow> bool" where
  "no_jump (AInstr v) = True"
| "no_jump (CInstr c d j) = (j = NoJump)"

text \<open>
  The register that holds the base address of a segment addressed through a pointer:
  \<^verbatim>\<open>LCL\<close>, \<^verbatim>\<open>ARG\<close>, \<^verbatim>\<open>THIS\<close> and \<^verbatim>\<open>THAT\<close> are the memory cells 1 to 4.
\<close>

definition segment_base :: "string \<Rightarrow> 16 word" where
  "segment_base segment =
     (if segment = ''local'' then 1 else if segment = ''argument'' then 2
      else if segment = ''this'' then 3 else 4)"


text \<open>
  The instructions that the assembler produces for the shared routines \<^verbatim>\<open>CALL\<close> and
  \<^verbatim>\<open>RETURN\<close> of the translator, without the jump that ends each of them.
\<close>

definition call_routine_code :: "instr list" where
  "call_routine_code =
     [AInstr 0, CInstr ValM (Dest True False False) NoJump,
      CInstr ValD (Dest False False True) NoJump, AInstr 0,
      CInstr IncM (Dest False False True) NoJump, AInstr 1,
      CInstr ValM (Dest False True False) NoJump, AInstr 0,
      CInstr ValM (Dest True False False) NoJump, CInstr ValD (Dest False False True) NoJump,
      AInstr 0, CInstr IncM (Dest False False True) NoJump, AInstr 2,
      CInstr ValM (Dest False True False) NoJump, AInstr 0,
      CInstr ValM (Dest True False False) NoJump, CInstr ValD (Dest False False True) NoJump,
      AInstr 0, CInstr IncM (Dest False False True) NoJump, AInstr 3,
      CInstr ValM (Dest False True False) NoJump, AInstr 0,
      CInstr ValM (Dest True False False) NoJump, CInstr ValD (Dest False False True) NoJump,
      AInstr 0, CInstr IncM (Dest False False True) NoJump, AInstr 4,
      CInstr ValM (Dest False True False) NoJump, AInstr 0,
      CInstr ValM (Dest True False False) NoJump, CInstr ValD (Dest False False True) NoJump,
      AInstr 0, CInstr IncM (Dest False False True) NoJump, AInstr 0,
      CInstr ValM (Dest False True False) NoJump, AInstr 14,
      CInstr DminusM (Dest False True False) NoJump, AInstr 5,
      CInstr DminusA (Dest False True False) NoJump, AInstr 2,
      CInstr ValD (Dest False False True) NoJump, AInstr 0,
      CInstr ValM (Dest False True False) NoJump, AInstr 1,
      CInstr ValD (Dest False False True) NoJump, AInstr 13,
      CInstr ValM (Dest True False False) NoJump]"

definition return_routine_code :: "instr list" where
  "return_routine_code =
     [AInstr 5, CInstr ValA (Dest False True False) NoJump, AInstr 1,
      CInstr MminusD (Dest True False False) NoJump, CInstr ValM (Dest False True False) NoJump,
      AInstr 13, CInstr ValD (Dest False False True) NoJump, AInstr 0,
      CInstr DecM (Dest False False True) NoJump, CInstr ValM (Dest True False False) NoJump,
      CInstr ValM (Dest False True False) NoJump, AInstr 2,
      CInstr ValM (Dest True False False) NoJump, CInstr ValD (Dest False False True) NoJump,
      AInstr 2, CInstr IncM (Dest False True False) NoJump, AInstr 0,
      CInstr ValD (Dest False False True) NoJump, AInstr 1,
      CInstr DecM (Dest True False False) NoJump, CInstr ValM (Dest False True False) NoJump,
      AInstr 4, CInstr ValD (Dest False False True) NoJump, AInstr 1,
      CInstr ValM (Dest False True False) NoJump, AInstr 2,
      CInstr DminusA (Dest False True False) NoJump, CInstr ValD (Dest True False False) NoJump,
      CInstr ValM (Dest False True False) NoJump, AInstr 3,
      CInstr ValD (Dest False False True) NoJump, AInstr 1,
      CInstr ValM (Dest False True False) NoJump, AInstr 3,
      CInstr DminusA (Dest False True False) NoJump, CInstr ValD (Dest True False False) NoJump,
      CInstr ValM (Dest False True False) NoJump, AInstr 2,
      CInstr ValD (Dest False False True) NoJump, AInstr 1,
      CInstr ValM (Dest False True False) NoJump, AInstr 4,
      CInstr DminusA (Dest False True False) NoJump, CInstr ValD (Dest True False False) NoJump,
      CInstr ValM (Dest False True False) NoJump, AInstr 1,
      CInstr ValD (Dest False False True) NoJump, AInstr 13,
      CInstr ValM (Dest True False False) NoJump]"

section \<open>Properties of the library functions\<close>

lemma digit_char_props: "d < 10 \<Longrightarrow> is_digit (digit_char d) \<and> digit_val (digit_char d) = d"
proof -
  assume "d < 10"
  then have "d \<in> {0, 1, 2, 3, 4, 5, 6, 7, 8, 9}" by auto
  then show ?thesis
    by (auto simp: is_digit_def digit_val_def digit_char_def)
qed

lemma digits_all_digit: "list_all is_digit (digits n)"
proof (induction n rule: digits.induct)
  case (1 n)
  show ?case
  proof (cases "n < 10")
    case True
    then show ?thesis by (subst digits.simps) (simp add: digit_char_props)
  next
    case False
    with 1 show ?thesis by (subst digits.simps) (simp add: digit_char_props)
  qed
qed

lemma digits_nonempty: "digits n \<noteq> []"
  by (subst digits.simps) simp

lemma dec_val_snoc: "dec_val (s @ [c]) = 10 * dec_val s + digit_val c"
  by (simp add: dec_val_def)

lemma dec_val_digits: "dec_val (digits n) = n"
proof (induction n rule: digits.induct)
  case (1 n)
  show ?case
  proof (cases "n < 10")
    case True
    then show ?thesis by (subst digits.simps) (simp add: digit_char_props dec_val_def)
  next
    case False
    with 1 show ?thesis by (subst digits.simps) (simp add: digit_char_props dec_val_snoc)
  qed
qed


lemma is_digit_not_sign: "is_digit c \<Longrightarrow> c \<noteq> CHR ''-'' \<and> c \<noteq> CHR ''+''"
  by (auto simp: is_digit_def)

lemma hd_digits_digit: "is_digit (hd (digits n))"
  using digits_all_digit [of n] digits_nonempty [of n]
  by (cases "digits n") simp_all


lemma Itoa_nonneg: "0 \<le> k \<Longrightarrow> Itoa k = digits (nat k)"
  by (simp add: Itoa_def)

lemma Atoi_digits: "n < 2 ^ 63 \<Longrightarrow> Atoi (digits n) = Some (int n)"
  using hd_digits_digit [of n] is_digit_not_sign [of "hd (digits n)"]
  by (simp add: Atoi_def Let_def digits_nonempty digits_all_digit dec_val_digits)

lemma Atoi_Itoa: "0 \<le> k \<Longrightarrow> k < 2 ^ 63 \<Longrightarrow> Atoi (Itoa k) = Some k"
  using Atoi_digits [of "nat k"] by (simp add: Itoa_nonneg nat_less_iff)

lemma fields_acc_Nil [simp]: "fields_acc cur [] = (if cur = [] then [] else [cur])"
  by (subst fields_acc.simps) simp

lemma space_width_is_space [simp]: "is_space c \<Longrightarrow> space_width (c # cs) = 1"
  by (simp add: space_width_def)

lemma space_width_ascii [simp]:
  "of_char c < (128::nat) \<Longrightarrow> \<not> is_space c \<Longrightarrow> space_width (c # cs) = 0"
  by (auto simp: space_width_def Let_def)

lemma fields_acc_space [simp]:
  "is_space c \<Longrightarrow>
   fields_acc cur (c # cs) = (if cur = [] then fields_acc [] cs else cur # fields_acc [] cs)"
  by (subst fields_acc.simps) simp

lemma fields_acc_ascii [simp]:
  "of_char c < (128::nat) \<Longrightarrow> \<not> is_space c \<Longrightarrow>
   fields_acc cur (c # cs) = fields_acc (cur @ [c]) cs"
  by (subst fields_acc.simps) simp

lemma fields_acc_word:
  "list_all (\<lambda>c. of_char c < (128::nat) \<and> \<not> is_space c) w \<Longrightarrow>
   fields_acc cur (w @ rest) = fields_acc (cur @ w) rest"
  by (induction w arbitrary: cur) simp_all



lemma digits_no_space: "list_all (\<lambda>c. of_char c < (128::nat) \<and> \<not> is_space c) (digits n)"
  using digits_all_digit [of n] by (auto simp: list_all_iff is_digit_def is_space_def)

lemma block_Nil: "block [] = [nl]"
  by (simp add: block_def)

lemma handlePop_constant: "handlePop g ''constant'' k = [nl]"
  by (simp add: handlePop_def handlePop_lines_def block_Nil)

lemma fields_acc_digits: "fields_acc cur (digits n) = [cur @ digits n]"
  using fields_acc_word [OF digits_no_space, of cur n "[]"] by (simp add: digits_nonempty)

lemma Fields_pop_constant:
  "Fields (''pop constant '' @ digits n) = [''pop'', ''constant'', digits n]"
  by (simp add: Fields_def is_space_def fields_acc_digits)

section \<open>Properties of the translator state\<close>







lemma operation_funcStack:
  "operation g op = Inr (out, g') \<Longrightarrow> funcStack g' = funcStack g \<and> pathToTranslate g' = pathToTranslate g"
  by (auto simp: operation_def eq_def gt_def lt_def split: if_splits)


lemma parseCommand_path:
  "parseCommand g line = Inr (out, g') \<Longrightarrow> pathToTranslate g' = pathToTranslate g"
  by (auto simp: parseCommand_def Let_def function_cmd_def callFunction_def
      split: if_splits option.splits sum.splits prod.splits dest!: operation_funcStack)



lemma Parse_path:
  "Parse g ls = Inr (outs, g') \<Longrightarrow> pathToTranslate g' = pathToTranslate g"
proof (induction ls arbitrary: g outs)
  case Nil
  then show ?case by simp
next
  case (Cons raw rest)
  show ?case
  proof (cases "HasPrefix (TrimSpace raw) ''//'' \<or> TrimSpace raw = []")
    case True
    with Cons show ?thesis by (simp add: Let_def)
  next
    case False
    with Cons.prems obtain out g1 outs1 where
      pc: "parseCommand g (TrimSpace (Split0 (TrimSpace raw))) = Inr (out, g1)"
      and rest: "Parse g1 rest = Inr (outs1, g')"
      by (auto simp: Let_def split: sum.splits prod.splits)
    from parseCommand_path [OF pc] Cons.IH [OF rest] show ?thesis by simp
  qed
qed

section \<open>Claims about the emitted text\<close>

subsection \<open>Popping to the constant segment\<close>

text \<open>
  Claim C10. For every index \<open>k \<ge> 0\<close> (of Go's type \<^verbatim>\<open>int\<close>, so below \<open>2^63\<close>) the
  command \<^verbatim>\<open>pop constant k\<close> is accepted without an error, and the block emitted for
  it holds no instruction: \<^verbatim>\<open>handlePop\<close> has no case for the segment, so its list
  of lines is empty and the block is a single newline.
\<close>

theorem pop_constant_accepted:
  "handlePop_lines g ''constant'' k = [] \<and> handlePop g ''constant'' k = [nl] \<and>
   (0 \<le> k \<and> k < 2 ^ 63 \<longrightarrow> parseCommand g (''pop constant '' @ Itoa k) = Inr ([nl], g))"
proof (intro conjI impI)
  show "handlePop_lines g ''constant'' k = []" by (simp add: handlePop_lines_def)
  show "handlePop g ''constant'' k = [nl]" by (rule handlePop_constant)
  assume k: "0 \<le> k \<and> k < 2 ^ 63"
  then have a: "Atoi (digits (nat k)) = Some k"
    using Atoi_Itoa [of k] by (simp add: Itoa_nonneg)
  have f: "Fields (''pop constant '' @ Itoa k) = [''pop'', ''constant'', digits (nat k)]"
    using k Fields_pop_constant [of "nat k"] by (simp only: Itoa_nonneg)
  show "parseCommand g (''pop constant '' @ Itoa k) = Inr ([nl], g)"
    unfolding parseCommand_def f by (simp add: a handlePop_constant)
qed

theorem pop_constant_accepted_witness:
  "(0 :: int) \<le> 7 \<and> (7 :: int) < 2 ^ 63 \<and>
   parseCommand (initial_globals ''Prog'' False False False) ''pop constant 7''
     = Inr ([nl], initial_globals ''Prog'' False False False)"
proof -
  have "Itoa 7 = ''7''" by code_simp
  then show ?thesis
    using pop_constant_accepted [of "initial_globals ''Prog'' False False False" 7] by simp
qed

subsection \<open>Unknown segments and pointer indices\<close>

text \<open>
  Claim C7 says that an unknown segment name and a \<^verbatim>\<open>pointer\<close> index outside
  \<open>{0,1}\<close> are translation errors. \<^verbatim>\<open>handlePush\<close> and \<^verbatim>\<open>handlePop\<close> return no
  error at all: their \<^verbatim>\<open>switch\<close> has no default case and the \<^verbatim>\<open>pointer\<close> case no
  final \<^verbatim>\<open>else\<close>, so such a command yields an empty block and translation goes on.
  The theorem evaluates the translator at four such commands.
\<close>

theorem unknown_segment_and_pointer_index_not_rejected:
  "parseCommand g ''push pointer 2'' = Inr ([nl], g) \<and>
   parseCommand g ''pop pointer 2'' = Inr ([nl], g) \<and>
   parseCommand g ''push heap 0'' = Inr ([nl], g) \<and>
   parseCommand g ''pop heap 0'' = Inr ([nl], g)"
  by (simp add: parseCommand_def Fields_def is_space_def Atoi_def is_digit_def dec_val_def
      digit_val_def handlePush_def handlePush_lines_def handlePop_def handlePop_lines_def block_Nil)

subsection \<open>Labels outside a function\<close>




subsection \<open>Label symbols\<close>




subsection \<open>Return-address labels\<close>




subsection \<open>Function entry labels\<close>

text \<open>
  Claim C2 says that one function name defined in two source units of one translation
  gives two distinct entry symbols. The prefix is the base name of the translated path,
  which is the same for every unit: both definitions get the same symbol.
\<close>

theorem same_name_in_two_units_collides:
  "case_sum (\<lambda>e. []) (\<lambda>r. drop 7 (fst r))
     (loadFolder (initial_globals ''Prog'' False False False)
        [(''Prog/A.vm'', [''function foo 0'']), (''Prog/B.vm'', [''function foo 0''])])
   = [''(Prog.foo)'' @ [nl], ''(Prog.foo)'' @ [nl]]"
  by code_simp

text \<open>
  Claim C2, amended. The entry label of \<^verbatim>\<open>function name n\<close> is
  \<^verbatim>\<open>(<program>.<name>)\<close>, the first line of the emitted block, where the program name
  is the base name of the translated path. It does not depend on the current file, and
  translating a file does not change the path, so one name in two units of a translation
  gives the same symbol; two different names give two different symbols.
\<close>

theorem function_entry_label:
  "(function_cmd g name nVars = Inr (out, g') \<longrightarrow>
      (\<exists>numVars. Atoi nVars = Some numVars \<and> out = block (function_lines g name numVars))) \<and>
   hd (function_lines g name k) = ''('' @ path_Base (pathToTranslate g) @ ''.'' @ name @ '')'' \<and>
   function_lines (g\<lparr>currentFile := src\<rparr>) name k = function_lines g name k \<and>
   (parseFile g fileName content = Inr (ls, h) \<longrightarrow> pathToTranslate h = pathToTranslate g) \<and>
   (name \<noteq> name' \<longrightarrow> hd (function_lines g name k) \<noteq> hd (function_lines g name' k'))"
proof -
  have p: "parseFile g fileName content = Inr (ls, h) \<longrightarrow> pathToTranslate h = pathToTranslate g"
    by (auto simp: parseFile_def split: if_splits dest!: Parse_path)
  show ?thesis
    using p by (auto simp: function_cmd_def function_lines_def getFolderName_def split: option.splits)
qed

theorem function_entry_label_witness:
  "function_cmd (initial_globals ''Prog'' False False False) ''foo'' ''0''
     = Inr (block [''(Prog.foo)''],
            (initial_globals ''Prog'' False False False)
              \<lparr>funcStack := \<lparr>current = ''foo'', returnCounter = 0\<rparr>\<rparr>) \<and>
   parseFile (initial_globals ''Prog'' False False False) ''Prog/A.vm'' [''function foo 0'']
     = Inr ([block [''(Prog.foo)'']],
            (initial_globals ''Prog'' False False False)
              \<lparr>funcStack := \<lparr>current = ''foo'', returnCounter = 0\<rparr>, currentFile := ''A.vm''\<rparr>) \<and>
   pathToTranslate ((initial_globals ''Prog'' False False False)
              \<lparr>funcStack := \<lparr>current = ''foo'', returnCounter = 0\<rparr>, currentFile := ''A.vm''\<rparr>)
     = pathToTranslate (initial_globals ''Prog'' False False False) \<and>
   hd (function_lines (initial_globals ''Prog'' False False False) ''foo'' 0)
     \<noteq> hd (function_lines (initial_globals ''Prog'' False False False) ''bar'' 0)"
proof -
  let ?I = "initial_globals ''Prog'' False False False"
  let ?G = "?I\<lparr>funcStack := \<lparr>current = ''foo'', returnCounter = 0\<rparr>\<rparr>"
  let ?H = "?I\<lparr>funcStack := \<lparr>current = ''foo'', returnCounter = 0\<rparr>, currentFile := ''A.vm''\<rparr>"
  have f: "function_cmd ?I ''foo'' ''0'' = Inr (block [''(Prog.foo)''], ?G)"
    by code_simp
  have p: "parseFile ?I ''Prog/A.vm'' [''function foo 0''] = Inr ([block [''(Prog.foo)'']], ?H)"
    by code_simp
  note t = function_entry_label [where g = ?I and name = "''foo''" and name' = "''bar''"
      and k = 0 and k' = 0 and fileName = "''Prog/A.vm''" and content = "[''function foo 0'']"
      and ls = "[block [''(Prog.foo)'']]" and h = ?H and nVars = "''0''"
      and out = "block [''(Prog.foo)'']" and g' = ?G and src = "''A.vm''"]
  from t p have a: "pathToTranslate ?H = pathToTranslate ?I" by blast
  from t have b: "hd (function_lines ?I ''foo'' 0) \<noteq> hd (function_lines ?I ''bar'' 0)" by blast
  from f p a b show ?thesis by blast
qed

section \<open>Running code that stands inside a program\<close>

lemma exec_add:
  "exec (m + n) rom s = (case exec m rom s of None \<Rightarrow> None | Some s' \<Rightarrow> exec n rom s')"
  by (induction m arbitrary: s) (auto split: option.splits)

lemma rom_has_Cons:
  assumes "rom_has rom p (i # ins)"
  shows "p < length rom \<and> rom ! p = i \<and> rom_has rom (Suc p) ins"
proof -
  from assms have len: "p < length rom" and tk: "take (Suc (length ins)) (drop p rom) = i # ins"
    and le: "Suc (p + length ins) \<le> length rom"
    by (auto simp: rom_has_def)
  from len have "drop p rom = rom ! p # drop (Suc p) rom"
    by (simp add: Cons_nth_drop_Suc)
  with tk have "rom ! p = i" "take (length ins) (drop (Suc p) rom) = ins" by simp_all
  with len le show ?thesis by (simp add: rom_has_def)
qed

lemma rom_has_append:
  "rom_has rom p (xs @ ys) \<Longrightarrow> rom_has rom p xs \<and> rom_has rom (p + length xs) ys"
proof (induction xs arbitrary: p)
  case Nil
  then show ?case by (simp add: rom_has_def)
next
  case (Cons x xs)
  from rom_has_Cons [of rom p x "xs @ ys"] Cons.prems
  have a: "p < length rom" "rom ! p = x" "rom_has rom (Suc p) (xs @ ys)" by simp_all
  from Cons.IH [OF a(3)] have b: "rom_has rom (Suc p) xs" "rom_has rom (Suc p + length xs) ys" by simp_all
  from a(1) have d: "drop p rom = rom ! p # drop (Suc p) rom" by (simp add: Cons_nth_drop_Suc)
  have "rom_has rom p (x # xs)"
    using a b(1) d by (simp add: rom_has_def)
  with b(2) show ?case by simp
qed

lemma exec_run:
  "rom_has rom (pc s) ins \<Longrightarrow> list_all no_jump ins \<Longrightarrow>
   exec (length ins) rom s = Some (run ins s) \<and> pc (run ins s) = pc s + length ins"
proof (induction ins arbitrary: s)
  case Nil
  then show ?case by (simp add: run_def)
next
  case (Cons i ins)
  from rom_has_Cons [OF Cons.prems(1)]
  have a: "pc s < length rom" "rom ! pc s = i" "rom_has rom (Suc (pc s)) ins" by simp_all
  from Cons.prems(2) have nj: "no_jump i" "list_all no_jump ins" by simp_all
  have p1: "pc (exec_instr i s) = Suc (pc s)"
    using nj(1) by (cases i; cases "case i of CInstr c d j \<Rightarrow> d"; auto simp: Let_def)
  from Cons.IH [of "exec_instr i s"] a(3) nj(2) p1
  have "exec (length ins) rom (exec_instr i s) = Some (run ins (exec_instr i s))"
    and "pc (run ins (exec_instr i s)) = Suc (pc s) + length ins" by simp_all
  then show ?case using a by (simp add: step_def run_def)
qed

lemma exec_run_jump:
  assumes "rom_has rom (pc s) (ins @ [j])" "list_all no_jump ins"
  shows "exec (Suc (length ins)) rom s = Some (exec_instr j (run ins s))"
proof -
  from rom_has_append [OF assms(1)]
  have a: "rom_has rom (pc s) ins" "rom_has rom (pc s + length ins) [j]" by simp_all
  from exec_run [OF a(1) assms(2)]
  have b: "exec (length ins) rom s = Some (run ins s)" "pc (run ins s) = pc s + length ins" by simp_all
  from rom_has_Cons [OF a(2)] b(2)
  have c: "step rom (run ins s) = Some (exec_instr j (run ins s))"
    by (simp add: step_def)
  have "exec (length ins + 1) rom s = Some (exec_instr j (run ins s))"
    unfolding exec_add using b(1) c by simp
  then show ?thesis by simp
qed

section \<open>Properties of the assembler\<close>

lemma n_ins_simps [simp]:
  "n_ins [] = 0" "n_ins (ALabel l # ls) = n_ins ls"
  "n_ins (AAt v # ls) = Suc (n_ins ls)" "n_ins (AComp c d j # ls) = Suc (n_ins ls)"
  by (simp_all add: n_ins_def)

lemma pass1_mono: "pass1 ls n t = Some L \<Longrightarrow> t l = Some a \<Longrightarrow> L l = Some a"
proof (induction ls n t rule: pass1.induct)
  case (2 l' ls n t)
  from "2.prems" have n: "t l' = None" and p: "pass1 ls n (t(l' \<mapsto> n)) = Some L"
    by (simp_all split: if_splits)
  from n "2.prems"(2) have "l \<noteq> l'" by auto
  with "2.prems"(2) have "(t(l' \<mapsto> n)) l = Some a" by simp
  from "2.IH" [OF _ p this] n show ?case by simp
qed simp_all

lemma pass1_label:
  "pass1 (pre @ ALabel l # post) n t = Some L \<Longrightarrow> L l = Some (n + n_ins pre)"
proof (induction pre n t rule: pass1.induct)
  case (1 n t)
  then have p: "pass1 post n (t(l \<mapsto> n)) = Some L"
    by (simp split: if_splits)
  from pass1_mono [OF p, of l n] show ?case by simp
next
  case (2 l' ls n t)
  from "2.prems" have n: "t l' = None" and p: "pass1 (ls @ ALabel l # post) n (t(l' \<mapsto> n)) = Some L"
    by (simp_all split: if_splits)
  from "2.IH" [OF _ p] n show ?case by simp
qed simp_all

lemma pass2_prefix:
  "pass2 L vs (pre @ rest) = Some rom \<Longrightarrow>
   \<exists>vs' r1 r2. rom = r1 @ r2 \<and> length r1 = n_ins pre \<and> pass2 L vs' rest = Some r2"
proof (induction pre arbitrary: vs rom)
  case Nil
  then show ?case by auto
next
  case (Cons a pre)
  show ?case
  proof (cases a)
    case (ALabel l)
    with Cons show ?thesis by simp
  next
    case (AComp c d j)
    with Cons.prems obtain rom' where r: "rom = CInstr c d j # rom'" "pass2 L vs (pre @ rest) = Some rom'"
      by auto
    from Cons.IH [OF r(2)] obtain vs' r1 r2 where
      "rom' = r1 @ r2" "length r1 = n_ins pre" "pass2 L vs' rest = Some r2" by blast
    then have "rom = (CInstr c d j # r1) @ r2 \<and> length (CInstr c d j # r1) = n_ins (a # pre)
        \<and> pass2 L vs' rest = Some r2"
      using r(1) AComp by simp
    then show ?thesis by blast
  next
    case (AAt v)
    with Cons.prems obtain i rom' vs1 where r: "rom = i # rom'" "pass2 L vs1 (pre @ rest) = Some rom'"
      by (auto split: option.splits)
    from Cons.IH [OF r(2)] obtain vs' r1 r2 where
      "rom' = r1 @ r2" "length r1 = n_ins pre" "pass2 L vs' rest = Some r2" by blast
    then have "rom = (i # r1) @ r2 \<and> length (i # r1) = n_ins (a # pre) \<and> pass2 L vs' rest = Some r2"
      using r(1) AAt by simp
    then show ?thesis by blast
  qed
qed

lemma pass2_known:
  "pass2 L vs (blk @ post) = Some rom \<Longrightarrow> known_instrs L blk = Some ins \<Longrightarrow> \<exists>r. rom = ins @ r"
proof (induction blk arbitrary: vs rom ins)
  case Nil
  then show ?case by simp
next
  case (Cons a blk)
  show ?case
  proof (cases a)
    case (ALabel l)
    with Cons show ?thesis by simp
  next
    case (AComp c d j)
    with Cons.prems obtain rom' ins' where
      r: "rom = CInstr c d j # rom'" "pass2 L vs (blk @ post) = Some rom'"
      and k: "ins = CInstr c d j # ins'" "known_instrs L blk = Some ins'"
      by auto
    from Cons.IH [OF r(2) k(2)] r(1) k(1) show ?thesis by auto
  next
    case (AAt v)
    with Cons.prems obtain i rom' ins' where
      r: "rom = i # rom'" "pass2 L vs (blk @ post) = Some rom'"
      and k: "ins = i # ins'" "known_instrs L blk = Some ins'"
      by (auto simp: address_instr_def split: option.splits if_splits)
    from Cons.IH [OF r(2) k(2)] r(1) k(1) show ?thesis by auto
  qed
qed

lemma rom_hasI: "rom = r1 @ ins @ r2 \<Longrightarrow> length r1 = p \<Longrightarrow> rom_has rom p ins"
  by (auto simp: rom_has_def)

lemma pass2_code:
  assumes "pass2 L vs (pre @ blk @ post) = Some rom" "known_instrs L blk = Some ins"
  shows "rom_has rom (n_ins pre) ins"
proof -
  from pass2_prefix [OF assms(1)] obtain vs' r1 r2 where
    a: "rom = r1 @ r2" "length r1 = n_ins pre" "pass2 L vs' (blk @ post) = Some r2" by blast
  from pass2_known [OF a(3) assms(2)] obtain r where "r2 = ins @ r" by blast
  with a show ?thesis by (auto intro: rom_hasI)
qed

lemma parse_line_label:
  "parse_line l = Some y \<Longrightarrow> HasPrefix l ''('' = is_label y"
  by (cases l) (auto simp: parse_line_def HasPrefix_def parse_compute_def Let_def
      split: if_splits option.splits)

lemma n_ins_parsed:
  "list_all (\<lambda>l. parse_line l \<noteq> None) ls \<Longrightarrow> n_ins (parsed ls) = instr_count ls"
  by (induction ls) (auto simp: parsed_def instr_count_def n_ins_def dest: parse_line_label)

lemma assemble_parts:
  assumes "assemble prog = Some rom"
  shows "list_all (\<lambda>l. parse_line l \<noteq> None) prog"
    and "pass1 (parsed prog) 0 Map.empty = Some (label_table prog)"
    and "pass2 (label_table prog) [] (parsed prog) = Some rom"
    and "length rom \<le> 32768"
  using assms
  by (auto simp: assemble_def label_table_def Let_def split: if_splits option.splits)

lemma assemble_code_at:
  assumes "assemble prog = Some rom" "code_at prog p blk"
      and "known_instrs (label_table prog) (parsed blk) = Some ins"
  shows "rom_has rom p ins"
proof -
  from assms(2) obtain pre post where pp: "prog = pre @ blk @ post" "instr_count pre = p"
    by (auto simp: code_at_def)
  note ap = assemble_parts [OF assms(1)]
  from ap(1) pp(1) have "list_all (\<lambda>l. parse_line l \<noteq> None) pre" by simp
  then have n: "n_ins (parsed pre) = p" using pp(2) by (simp add: n_ins_parsed)
  have "parsed prog = parsed pre @ parsed blk @ parsed post"
    using pp(1) by (simp add: parsed_def)
  with ap(3) have "pass2 (label_table prog) [] (parsed pre @ parsed blk @ parsed post) = Some rom"
    by simp
  from pass2_code [OF this assms(3)] n show ?thesis by simp
qed

lemma assemble_label:
  assumes "assemble prog = Some rom" "code_at prog p ((''('' @ l @ '')'') # rest)" "l \<noteq> []"
  shows "label_table prog l = Some p"
proof -
  from assms(2) obtain pre post where pp: "prog = pre @ ((''('' @ l @ '')'') # rest) @ post"
    "instr_count pre = p"
    by (auto simp: code_at_def)
  note ap = assemble_parts [OF assms(1)]
  from ap(1) pp(1) have "list_all (\<lambda>l. parse_line l \<noteq> None) pre" by simp
  then have n: "n_ins (parsed pre) = p" using pp(2) by (simp add: n_ins_parsed)
  have pl: "parse_line (''('' @ l @ '')'') = Some (ALabel l)"
    using assms(3) by (simp add: parse_line_def)
  have "parsed prog = parsed pre @ ALabel l # parsed (rest @ post)"
    using pp(1) pl by (simp add: parsed_def)
  with ap(2) have "pass1 (parsed pre @ ALabel l # parsed (rest @ post)) 0 Map.empty = Some (label_table prog)"
    by simp
  from pass1_label [OF this] n show ?thesis by simp
qed

lemma code_at_append:
  "code_at prog p (xs @ ys) \<Longrightarrow> code_at prog p xs \<and> code_at prog (p + instr_count xs) ys"
  unfolding code_at_def
proof -
  assume "\<exists>pre post. prog = pre @ (xs @ ys) @ post \<and> instr_count pre = p"
  then obtain pre post where pp: "prog = pre @ (xs @ ys) @ post" "instr_count pre = p" by blast
  have a: "prog = pre @ xs @ (ys @ post)" using pp(1) by simp
  have b: "prog = (pre @ xs) @ ys @ post" using pp(1) by simp
  have c: "instr_count (pre @ xs) = p + instr_count xs" using pp(2) by (simp add: instr_count_def)
  show "(\<exists>pre post. prog = pre @ xs @ post \<and> instr_count pre = p) \<and>
        (\<exists>pre post. prog = pre @ ys @ post \<and> instr_count pre = p + instr_count xs)"
    using a b c pp(2) by blast
qed

section \<open>The lines of the emitted blocks\<close>

declare exec.simps [simp del]

lemma exec_run_n:
  "rom_has rom (pc s) ins \<Longrightarrow> list_all no_jump ins \<Longrightarrow> n = length ins \<Longrightarrow>
   exec n rom s = Some (run ins s) \<and> pc (run ins s) = pc s + n"
  using exec_run [of rom s ins] by blast

lemma exec_run_jump_n:
  "rom_has rom (pc s) (ins @ [j]) \<Longrightarrow> list_all no_jump ins \<Longrightarrow> n = Suc (length ins) \<Longrightarrow>
   exec n rom s = Some (exec_instr j (run ins s))"
  using exec_run_jump [of rom s ins j] by blast

lemma exec_trans:
  "exec m rom s = Some s1 \<Longrightarrow> exec n rom s1 = Some s2 \<Longrightarrow> exec (m + n) rom s = Some s2"
  by (simp add: exec_add)

lemma lines_acc_word:
  "nl \<notin> set w \<Longrightarrow> lines_acc cur (w @ rest) = lines_acc (cur @ w) rest"
  by (induction w arbitrary: cur) auto

lemma lines_acc_Join:
  "\<forall>l\<in>set ls. l \<noteq> [] \<and> nl \<notin> set l \<Longrightarrow>
   lines_acc [] (Join ls [nl] @ nl # rest) = ls @ lines_acc [] rest"
proof (induction ls "[nl]" rule: Join.induct)
  case 1
  show ?case by simp
next
  case (2 x)
  then show ?case by (simp add: lines_acc_word)
next
  case (3 x y ys)
  then have "lines_acc [] (x @ nl # Join (y # ys) [nl] @ nl # rest)
      = x # lines_acc [] (Join (y # ys) [nl] @ nl # rest)"
    by (simp add: lines_acc_word)
  with 3 show ?case by simp
qed

lemma lines_of_block:
  "\<forall>l\<in>set ls. l \<noteq> [] \<and> nl \<notin> set l \<Longrightarrow> lines_of (block ls) = ls"
  using lines_acc_Join [of ls "[]"] by (simp add: lines_of_def block_def)

lemma lines_of_Join_nl:
  "\<forall>l\<in>set ls. l \<noteq> [] \<and> nl \<notin> set l \<Longrightarrow> lines_of (Join ls [nl] @ [nl]) = ls"
  using lines_of_block [of ls] by (simp add: block_def)

lemma is_digit_not_nl: "is_digit c \<Longrightarrow> c \<noteq> nl"
  by (auto simp: is_digit_def nl_def)

lemma digits_no_nl: "nl \<notin> set (digits n)"
  using digits_all_digit [of n] is_digit_not_nl by (auto simp: list_all_iff)

lemma Itoa_no_nl: "nl \<notin> set (Itoa i)"
  using digits_no_nl by (auto simp: Itoa_def nl_def)

lemma Itoa_nonempty: "Itoa i \<noteq> []"
  by (simp add: Itoa_def digits_nonempty)

lemma parse_line_at: "x \<noteq> [] \<Longrightarrow> parse_line (CHR ''@'' # x) = Some (AAt x)"
  by (simp add: parse_line_def)

lemma parse_line_label_line: "l \<noteq> [] \<Longrightarrow> parse_line (CHR ''('' # l @ '')'') = Some (ALabel l)"
  by (simp add: parse_line_def)

lemma numeric_digits: "numeric (digits n)"
  by (simp add: numeric_def digits_nonempty digits_all_digit)

lemma resolve_digits: "resolve L (digits n) = Some n"
  by (simp add: resolve_def numeric_digits dec_val_digits)

lemma resolve_Itoa: "0 \<le> i \<Longrightarrow> resolve L (Itoa i) = Some (nat i)"
  by (simp add: Itoa_nonneg resolve_digits)

lemma predefined_no_dot: "map_of predefined v = Some a \<Longrightarrow> CHR ''.'' \<notin> set v"
  by (auto simp: predefined_def split: if_splits)

lemma numeric_no_dot: "numeric v \<Longrightarrow> CHR ''.'' \<notin> set v"
  by (auto simp: numeric_def list_all_iff is_digit_def)

lemma resolve_dotted: "CHR ''.'' \<in> set v \<Longrightarrow> resolve L v = L v"
  using predefined_no_dot [of v] numeric_no_dot [of v]
  by (auto simp: resolve_def split: option.splits)

lemma code_at_label:
  assumes "assemble prog = Some rom" "code_at prog p (xs @ (CHR ''('' # l @ '')'') # ys)" "l \<noteq> []"
  shows "label_table prog l = Some (p + instr_count xs)"
proof -
  from code_at_append [OF assms(2)]
  have "code_at prog (p + instr_count xs) ((''('' @ l @ '')'') # ys)" by simp
  from assemble_label [OF assms(1) this assms(3)] show ?thesis .
qed

lemma rom_has_bound: "rom_has rom p ins \<Longrightarrow> p + length ins \<le> length rom"
  by (simp add: rom_has_def)

lemma unat_address: "a \<le> 32768 \<Longrightarrow> unat (word_of_nat a :: 16 word) = a"
  by (simp add: unat_of_nat)

section \<open>Claims about the execution of the emitted code\<close>

subsection \<open>Subtraction\<close>

lemma sub_text: "lines_of (sub @ [nl]) = sub_lines"
  using lines_of_Join_nl [of sub_lines] by (simp add: sub_def sub_lines_def nl_def)

lemma sub_instrs:
  "known_instrs L (parsed sub_lines) =
     Some [AInstr 0, CInstr DecM (Dest True False True) NoJump, CInstr ValM (Dest False True False) NoJump,
           CInstr DecA (Dest True False False) NoJump, CInstr MminusD (Dest False False True) NoJump]"
  by (simp add: parsed_def sub_lines_def parse_line_def parse_compute_def comp_table_def
      dest_table_def jump_table_def resolve_def numeric_def is_digit_def predefined_def)

lemma sp_facts:
  fixes sp :: "16 word"
  assumes "2 < unat sp"
  shows "sp - 1 \<noteq> 0" "sp - 2 \<noteq> 0"
  using assms by unat_arith+

text \<open>
  Claim C3. Wherever the block emitted for \<^verbatim>\<open>sub\<close> stands in an assembled program,
  running its five instructions on a stack whose two topmost words are not the stack
  pointer itself replaces them by (second from top) minus (top): the stack pointer
  decreases by one, the word below the new stack pointer is the difference, and no other
  word of memory but the stack pointer changes.
\<close>

theorem sub_computes_difference:
  assumes "assemble prog = Some rom" and "code_at prog p (lines_of (sub @ [nl]))"
      and "pc s = p" and "2 < unat (ram s 0)"
  shows "parseCommand g ''sub'' = Inr (sub @ [nl], g) \<and>
         (\<exists>s'. exec 5 rom s = Some s' \<and> pc s' = p + 5 \<and>
           ram s' 0 = ram s 0 - 1 \<and>
           ram s' (ram s 0 - 2) = ram s (ram s 0 - 2) - ram s (ram s 0 - 1) \<and>
           (\<forall>a. a \<noteq> 0 \<and> a \<noteq> ram s 0 - 2 \<longrightarrow> ram s' a = ram s a))"
proof -
  let ?ins = "[AInstr 0, CInstr DecM (Dest True False True) NoJump, CInstr ValM (Dest False True False) NoJump,
           CInstr DecA (Dest True False False) NoJump, CInstr MminusD (Dest False False True) NoJump]"
  have pcmd: "parseCommand g ''sub'' = Inr (sub @ [nl], g)"
    by (simp add: parseCommand_def Fields_def is_space_def operation_def)
  have "rom_has rom p ?ins"
    using assemble_code_at [OF assms(1)] assms(2) sub_instrs by (simp add: sub_text)
  then have r: "rom_has rom (pc s) ?ins" using assms(3) by simp
  have e: "exec 5 rom s = Some (run ?ins s)" and pc': "pc (run ?ins s) = pc s + 5"
    using exec_run_n [OF r, of 5] by simp_all
  note f = sp_facts [OF assms(4)]
  have m: "ram (run ?ins s) = (ram s)(0 := ram s 0 - 1, ram s 0 - 2 := ram s (ram s 0 - 2) - ram s (ram s 0 - 1))"
    using f by (simp add: run_def Let_def fun_upd_def)
  show ?thesis
    using pcmd e pc' assms(3) f by (simp add: m)
qed

theorem sub_computes_difference_witness:
  "assemble (lines_of (sub @ [nl]))
     = Some [AInstr 0, CInstr DecM (Dest True False True) NoJump,
             CInstr ValM (Dest False True False) NoJump,
             CInstr DecA (Dest True False False) NoJump,
             CInstr MminusD (Dest False False True) NoJump] \<and>
   code_at (lines_of (sub @ [nl])) 0 (lines_of (sub @ [nl])) \<and>
   2 < unat (258 :: 16 word) \<and>
   (\<exists>s'. exec 5 [AInstr 0, CInstr DecM (Dest True False True) NoJump,
                 CInstr ValM (Dest False True False) NoJump,
                 CInstr DecA (Dest True False False) NoJump,
                 CInstr MminusD (Dest False False True) NoJump]
            \<lparr>areg = 0, dreg = 0, ram = (\<lambda>a. 0)(0 := 258, 256 := 7, 257 := 3), pc = 0\<rparr> = Some s' \<and>
         pc s' = 5 \<and> ram s' 0 = 257 \<and> ram s' 256 = 4)"
proof -
  let ?rom = "[AInstr 0, CInstr DecM (Dest True False True) NoJump,
             CInstr ValM (Dest False True False) NoJump,
             CInstr DecA (Dest True False False) NoJump,
             CInstr MminusD (Dest False False True) NoJump]"
  let ?s = "\<lparr>areg = 0, dreg = 0, ram = (\<lambda>a. 0)(0 := 258, 256 := 7, 257 := (3 :: 16 word)), pc = 0\<rparr>"
  have a: "assemble (lines_of (sub @ [nl])) = Some ?rom"
    by (simp add: sub_text sub_lines_def assemble_def parsed_def parse_line_def parse_compute_def
        comp_table_def dest_table_def jump_table_def resolve_def numeric_def is_digit_def
        predefined_def address_instr_def)
  have c: "code_at (lines_of (sub @ [nl])) 0 (lines_of (sub @ [nl]))"
    unfolding code_at_def
    by (rule exI [of _ "[]"], rule exI [of _ "[]"]) (simp add: instr_count_def)
  have u: "2 < unat (258 :: 16 word)" by simp
  have q: "pc ?s = 0" by simp
  have u': "2 < unat (ram ?s 0)" by simp
  from sub_computes_difference [OF a c q u', of "initial_globals ''Prog'' False False False"]
  obtain s' where "exec 5 ?rom ?s = Some s'" "pc s' = 5" "ram s' 0 = 257" "ram s' 256 = 4"
    by auto
  with a c u show ?thesis by blast
qed

subsection \<open>Push followed by pop\<close>

lemma word_13: "(13 :: 16 word) \<noteq> 0" "(0 :: 16 word) \<noteq> 13"
  by simp_all

lemma run_push0_pop0:
  fixes r :: "16 word"
  assumes "r \<noteq> 0" "ram s 0 \<noteq> 0" "ram s 0 \<noteq> r"
  shows "ram (run ([AInstr r, CInstr ValM (Dest True False False) NoJump,
                    CInstr ValM (Dest False True False) NoJump, AInstr 0,
                    CInstr IncM (Dest True False True) NoJump,
                    CInstr DecA (Dest True False False) NoJump,
                    CInstr ValD (Dest False False True) NoJump]
                 @ [AInstr 0, CInstr DecM (Dest True False True) NoJump,
                    CInstr ValM (Dest False True False) NoJump, AInstr r,
                    CInstr ValM (Dest True False False) NoJump,
                    CInstr ValD (Dest False False True) NoJump]) s)
         = (ram s)(ram s 0 := ram s (ram s r))"
  using assms by (auto simp: run_def Let_def fun_upd_def)

lemma run_pushk_popk_la:
  fixes r :: "16 word"
  assumes "r \<noteq> 0" "r \<noteq> 13" "ram s 0 \<noteq> 0" "ram s 0 \<noteq> r" "ram s 0 \<noteq> 13"
  shows "ram (run ([AInstr i, CInstr ValA (Dest False True False) NoJump, AInstr r,
                    CInstr ValM (Dest True False False) NoJump,
                    CInstr DplusA (Dest False True False) NoJump,
                    CInstr ValD (Dest True False False) NoJump,
                    CInstr ValM (Dest False True False) NoJump,
                    AInstr 0, CInstr IncM (Dest True False True) NoJump,
                    CInstr DecA (Dest True False False) NoJump,
                    CInstr ValD (Dest False False True) NoJump]
                 @ [AInstr i, CInstr ValA (Dest False True False) NoJump, AInstr r,
                    CInstr DplusM (Dest True False False) NoJump,
                    CInstr ValA (Dest False True False) NoJump, AInstr 13,
                    CInstr ValD (Dest False False True) NoJump,
                    AInstr 0, CInstr DecM (Dest True False True) NoJump,
                    CInstr ValM (Dest False True False) NoJump,
                    AInstr 13, CInstr ValM (Dest True False False) NoJump,
                    CInstr ValD (Dest False False True) NoJump]) s)
         = (ram s)(ram s 0 := ram s (ram s r + i), 13 := ram s r + i,
                   ram s r + i := ram s (ram s r + i))"
  using assms word_13 by (auto simp: run_def Let_def fun_upd_def add.commute)

lemma run_pushk_popk_tt:
  fixes r :: "16 word"
  assumes "r \<noteq> 0" "r \<noteq> 13" "ram s 0 \<noteq> 0" "ram s 0 \<noteq> r" "ram s 0 \<noteq> 13"
  shows "ram (run ([AInstr i, CInstr ValA (Dest False True False) NoJump, AInstr r,
                    CInstr DplusM (Dest True False False) NoJump,
                    CInstr ValM (Dest False True False) NoJump,
                    AInstr 0, CInstr IncM (Dest True False True) NoJump,
                    CInstr DecA (Dest True False False) NoJump,
                    CInstr ValD (Dest False False True) NoJump]
                 @ [AInstr i, CInstr ValA (Dest False True False) NoJump, AInstr r,
                    CInstr DplusM (Dest True False False) NoJump,
                    CInstr ValA (Dest False True False) NoJump, AInstr 13,
                    CInstr ValD (Dest False False True) NoJump,
                    AInstr 0, CInstr DecM (Dest True False True) NoJump,
                    CInstr ValM (Dest False True False) NoJump,
                    AInstr 13, CInstr ValM (Dest True False False) NoJump,
                    CInstr ValD (Dest False False True) NoJump]) s)
         = (ram s)(ram s 0 := ram s (ram s r + i), 13 := ram s r + i,
                   ram s r + i := ram s (ram s r + i))"
  using assms word_13 by (auto simp: run_def Let_def fun_upd_def add.commute)

lemmas Itoa_no_newline = Itoa_no_nl [unfolded nl_def]

lemma push_text:
  "segment \<in> {''local'', ''argument'', ''this'', ''that''} \<Longrightarrow>
   lines_of (handlePush g segment index) = handlePush_lines g segment index"
  unfolding handlePush_def
  by (rule lines_of_block) (auto simp: handlePush_lines_def Itoa_no_newline nl_def)

lemma pop_text:
  "segment \<in> {''local'', ''argument'', ''this'', ''that''} \<Longrightarrow>
   lines_of (handlePop g segment index) = handlePop_lines g segment index"
  unfolding handlePop_def
  by (rule lines_of_block) (auto simp: handlePop_lines_def Itoa_no_newline nl_def locRegister_def)

lemmas asm_eval = parsed_def parse_line_def parse_compute_def comp_table_def dest_table_def
  jump_table_def resolve_def numeric_def is_digit_def predefined_def

lemma push_pop_instrs_0:
  assumes "segment \<in> {''local'', ''argument'', ''this'', ''that''}"
  shows "known_instrs L (parsed (handlePush_lines g segment 0 @ handlePop_lines g segment 0))
     = Some ([AInstr (segment_base segment), CInstr ValM (Dest True False False) NoJump,
                    CInstr ValM (Dest False True False) NoJump, AInstr 0,
                    CInstr IncM (Dest True False True) NoJump,
                    CInstr DecA (Dest True False False) NoJump,
                    CInstr ValD (Dest False False True) NoJump]
                 @ [AInstr 0, CInstr DecM (Dest True False True) NoJump,
                    CInstr ValM (Dest False True False) NoJump, AInstr (segment_base segment),
                    CInstr ValM (Dest True False False) NoJump,
                    CInstr ValD (Dest False False True) NoJump])"
  using assms
  by (elim insertE emptyE; simp add: handlePush_lines_def handlePop_lines_def segment_base_def asm_eval)


lemma parsed_at_Itoa: "parse_line (CHR ''@'' # Itoa i) = Some (AAt (Itoa i))"
  by (simp add: parse_line_at Itoa_nonempty)

lemma word_of_nat_nat: "0 \<le> i \<Longrightarrow> (word_of_nat (nat i) :: 16 word) = word_of_int i"
  using of_int_of_nat_eq [of "nat i", where ?'a = "16 word"] by simp

lemma resolve_predefined:
  "resolve L ''SP'' = Some 0" "resolve L ''LCL'' = Some 1" "resolve L ''ARG'' = Some 2"
  "resolve L ''THIS'' = Some 3" "resolve L ''THAT'' = Some 4"
  "resolve L ''R13'' = Some 13" "resolve L ''R14'' = Some 14" "resolve L ''R15'' = Some 15"
  "resolve L ''0'' = Some 0" "resolve L ''2'' = Some 2"
  "resolve L ''3'' = Some 3" "resolve L ''4'' = Some 4" "resolve L ''5'' = Some 5"
  by (simp_all add: resolve_def numeric_def is_digit_def predefined_def dec_val_def digit_val_def)

lemma known_at_Itoa:
  "0 \<le> i \<Longrightarrow> known_instrs L (AAt (Itoa i) # ls)
     = map_option (Cons (AInstr (word_of_int i))) (known_instrs L ls)"
  by (simp add: resolve_Itoa word_of_nat_nat)

lemma push_pop_instrs_la:
  assumes "segment \<in> {''local'', ''argument''}" "0 < index"
  shows "known_instrs L (parsed (handlePush_lines g segment index @ handlePop_lines g segment index))
     = Some ([AInstr (word_of_int index), CInstr ValA (Dest False True False) NoJump,
                    AInstr (segment_base segment),
                    CInstr ValM (Dest True False False) NoJump,
                    CInstr DplusA (Dest False True False) NoJump,
                    CInstr ValD (Dest True False False) NoJump,
                    CInstr ValM (Dest False True False) NoJump,
                    AInstr 0, CInstr IncM (Dest True False True) NoJump,
                    CInstr DecA (Dest True False False) NoJump,
                    CInstr ValD (Dest False False True) NoJump]
                 @ [AInstr (word_of_int index), CInstr ValA (Dest False True False) NoJump,
                    AInstr (segment_base segment),
                    CInstr DplusM (Dest True False False) NoJump,
                    CInstr ValA (Dest False True False) NoJump, AInstr 13,
                    CInstr ValD (Dest False False True) NoJump,
                    AInstr 0, CInstr DecM (Dest True False True) NoJump,
                    CInstr ValM (Dest False True False) NoJump,
                    AInstr 13, CInstr ValM (Dest True False False) NoJump,
                    CInstr ValD (Dest False False True) NoJump])"
proof -
  have p: "parsed (handlePush_lines g segment index @ handlePop_lines g segment index)
    = [AAt (Itoa index), AComp ValA (Dest False True False) NoJump,
       AAt (if segment = ''local'' then ''LCL'' else ''ARG''),
       AComp ValM (Dest True False False) NoJump,
                    AComp DplusA (Dest False True False) NoJump,
                    AComp ValD (Dest True False False) NoJump,
                    AComp ValM (Dest False True False) NoJump,
                    AAt ''SP'', AComp IncM (Dest True False True) NoJump,
                    AComp DecA (Dest True False False) NoJump,
                    AComp ValD (Dest False False True) NoJump,
       AAt (Itoa index), AComp ValA (Dest False True False) NoJump,
       AAt (if segment = ''local'' then ''LCL'' else ''ARG''),
                    AComp DplusM (Dest True False False) NoJump,
                    AComp ValA (Dest False True False) NoJump, AAt ''R13'',
                    AComp ValD (Dest False False True) NoJump,
                    AAt ''SP'', AComp DecM (Dest True False True) NoJump,
                    AComp ValM (Dest False True False) NoJump,
                    AAt ''R13'', AComp ValM (Dest True False False) NoJump,
                    AComp ValD (Dest False False True) NoJump]"
    using assms
    by (elim insertE emptyE; simp add: handlePush_lines_def handlePop_lines_def locRegister_def
        parsed_def parsed_at_Itoa; simp add: parse_line_def parse_compute_def comp_table_def
        dest_table_def jump_table_def)
  have i: "0 \<le> index" using assms(2) by simp
  show ?thesis
    unfolding p using assms(1)
    by (elim insertE emptyE; simp add: resolve_Itoa [OF i] word_of_nat_nat [OF i]
        segment_base_def resolve_predefined)
qed


lemma push_pop_instrs_tt:
  assumes "segment \<in> {''this'', ''that''}" "0 < index"
  shows "known_instrs L (parsed (handlePush_lines g segment index @ handlePop_lines g segment index))
     = Some ([AInstr (word_of_int index), CInstr ValA (Dest False True False) NoJump,
                    AInstr (segment_base segment),
                    CInstr DplusM (Dest True False False) NoJump,
                    CInstr ValM (Dest False True False) NoJump,
                    AInstr 0, CInstr IncM (Dest True False True) NoJump,
                    CInstr DecA (Dest True False False) NoJump,
                    CInstr ValD (Dest False False True) NoJump]
                 @ [AInstr (word_of_int index), CInstr ValA (Dest False True False) NoJump,
                    AInstr (segment_base segment),
                    CInstr DplusM (Dest True False False) NoJump,
                    CInstr ValA (Dest False True False) NoJump, AInstr 13,
                    CInstr ValD (Dest False False True) NoJump,
                    AInstr 0, CInstr DecM (Dest True False True) NoJump,
                    CInstr ValM (Dest False True False) NoJump,
                    AInstr 13, CInstr ValM (Dest True False False) NoJump,
                    CInstr ValD (Dest False False True) NoJump])"
proof -
  have p: "parsed (handlePush_lines g segment index @ handlePop_lines g segment index)
    = [AAt (Itoa index), AComp ValA (Dest False True False) NoJump,
       AAt (if segment = ''this'' then ''THIS'' else ''THAT''),
                    AComp DplusM (Dest True False False) NoJump,
                    AComp ValM (Dest False True False) NoJump,
                    AAt ''SP'', AComp IncM (Dest True False True) NoJump,
                    AComp DecA (Dest True False False) NoJump,
                    AComp ValD (Dest False False True) NoJump,
       AAt (Itoa index), AComp ValA (Dest False True False) NoJump,
       AAt (if segment = ''this'' then ''THIS'' else ''THAT''),
                    AComp DplusM (Dest True False False) NoJump,
                    AComp ValA (Dest False True False) NoJump, AAt ''R13'',
                    AComp ValD (Dest False False True) NoJump,
                    AAt ''SP'', AComp DecM (Dest True False True) NoJump,
                    AComp ValM (Dest False True False) NoJump,
                    AAt ''R13'', AComp ValM (Dest True False False) NoJump,
                    AComp ValD (Dest False False True) NoJump]"
    using assms
    by (elim insertE emptyE; simp add: handlePush_lines_def handlePop_lines_def locRegister_def
        parsed_def parsed_at_Itoa; simp add: parse_line_def parse_compute_def comp_table_def
        dest_table_def jump_table_def)
  have i: "0 \<le> index" using assms(2) by simp
  show ?thesis
    unfolding p using assms(1)
    by (elim insertE emptyE; simp add: resolve_Itoa [OF i] word_of_nat_nat [OF i]
        segment_base_def resolve_predefined)
qed

lemma run_code:
  assumes "assemble prog = Some rom" "code_at prog p blk"
      and "known_instrs (label_table prog) (parsed blk) = Some ins"
      and "list_all no_jump ins" "pc s = p"
  shows "exec (length ins) rom s = Some (run ins s) \<and> pc (run ins s) = p + length ins"
proof -
  from assemble_code_at [OF assms(1,2,3)] assms(5) have "rom_has rom (pc s) ins" by simp
  from exec_run [OF this assms(4)] assms(5) show ?thesis by simp
qed

lemma base_facts:
  assumes "segment \<in> {''local'', ''argument'', ''this'', ''that''}" "16 \<le> unat (sp :: 16 word)"
  shows "segment_base segment \<noteq> 0" "segment_base segment \<noteq> 13" "sp \<noteq> 0"
        "sp \<noteq> segment_base segment" "sp \<noteq> 13"
  using assms by (auto simp: segment_base_def)

lemma roundtrip_code:
  assumes "segment \<in> {''local'', ''argument'', ''this'', ''that''}" "0 \<le> index"
      and "16 \<le> unat (ram s 0)"
  shows "\<exists>ins. known_instrs L (parsed (handlePush_lines g segment index @ handlePop_lines g segment index))
             = Some ins \<and> list_all no_jump ins \<and>
           length ins = length (handlePush_lines g segment index) + length (handlePop_lines g segment index) \<and>
           ram (run ins s) =
             (if index = 0 then (ram s)(ram s 0 := ram s (ram s (segment_base segment)))
              else (ram s)(ram s 0 := ram s (ram s (segment_base segment) + word_of_int index),
                           13 := ram s (segment_base segment) + word_of_int index,
                           ram s (segment_base segment) + word_of_int index
                             := ram s (ram s (segment_base segment) + word_of_int index)))"
proof -
  note bf = base_facts [OF assms(1) assms(3)]
  consider (zero) "index = 0" | (la) "0 < index" "segment \<in> {''local'', ''argument''}"
    | (tt) "0 < index" "segment \<in> {''this'', ''that''}"
    using assms(1,2) by fastforce
  then show ?thesis
  proof cases
    case zero
    have len: "length (handlePush_lines g segment 0) + length (handlePop_lines g segment 0) = 13"
      using assms(1) by (elim insertE emptyE; simp add: handlePush_lines_def handlePop_lines_def)
    show ?thesis
      unfolding zero push_pop_instrs_0 [OF assms(1)] len
      using run_push0_pop0 [of "segment_base segment" s, OF bf(1) bf(3) bf(4)]
      by simp
  next
    case la
    have len: "length (handlePush_lines g segment index) + length (handlePop_lines g segment index) = 24"
      using la by (elim insertE emptyE; simp add: handlePush_lines_def handlePop_lines_def)
    show ?thesis
      unfolding push_pop_instrs_la [OF la(2) la(1)] len
      using run_pushk_popk_la [of "segment_base segment" s "word_of_int index", OF bf(1) bf(2) bf(3) bf(4) bf(5)] la(1)
      by simp
  next
    case tt
    have len: "length (handlePush_lines g segment index) + length (handlePop_lines g segment index) = 22"
      using tt by (elim insertE emptyE; simp add: handlePush_lines_def handlePop_lines_def)
    show ?thesis
      unfolding push_pop_instrs_tt [OF tt(2) tt(1)] len
      using run_pushk_popk_tt [of "segment_base segment" s "word_of_int index", OF bf(1) bf(2) bf(3) bf(4) bf(5)] tt(1)
      by simp
  qed
qed

lemma Itoa_2: "Itoa 2 = ''2''" by code_simp

lemma roundtrip_example_lines: "lines_of (handlePush g ''local'' 2) @ lines_of (handlePop g ''local'' 2)
   = [''@2'', ''D=A'', ''@LCL'', ''A=M'', ''D=D+A'', ''A=D'', ''D=M'', ''@SP'', ''AM=M+1'', ''A=A-1'', ''M=D'',
      ''@2'', ''D=A'', ''@LCL'', ''A=D+M'', ''D=A'', ''@R13'', ''M=D'', ''@SP'', ''AM=M-1'', ''D=M'', ''@R13'', ''A=M'', ''M=D'']"
  by (simp add: push_text pop_text handlePush_lines_def handlePop_lines_def Itoa_2 locRegister_def)

lemma roundtrip_example_rom: "assemble [''@2'', ''D=A'', ''@LCL'', ''A=M'', ''D=D+A'', ''A=D'', ''D=M'', ''@SP'', ''AM=M+1'', ''A=A-1'', ''M=D'',
      ''@2'', ''D=A'', ''@LCL'', ''A=D+M'', ''D=A'', ''@R13'', ''M=D'', ''@SP'', ''AM=M-1'', ''D=M'', ''@R13'', ''A=M'', ''M=D'']
  = Some [AInstr 2, CInstr ValA (Dest False True False) NoJump, AInstr 1,
      CInstr ValM (Dest True False False) NoJump,
      CInstr DplusA (Dest False True False) NoJump,
      CInstr ValD (Dest True False False) NoJump,
      CInstr ValM (Dest False True False) NoJump, AInstr 0,
      CInstr IncM (Dest True False True) NoJump,
      CInstr DecA (Dest True False False) NoJump,
      CInstr ValD (Dest False False True) NoJump, AInstr 2,
      CInstr ValA (Dest False True False) NoJump, AInstr 1,
      CInstr DplusM (Dest True False False) NoJump,
      CInstr ValA (Dest False True False) NoJump, AInstr 13,
      CInstr ValD (Dest False False True) NoJump, AInstr 0,
      CInstr DecM (Dest True False True) NoJump,
      CInstr ValM (Dest False True False) NoJump, AInstr 13,
      CInstr ValM (Dest True False False) NoJump,
      CInstr ValD (Dest False False True) NoJump]"
  by (simp add: assemble_def asm_eval address_instr_def dec_val_def digit_val_def)

text \<open>
  Claim C9. For a segment among \<^verbatim>\<open>local\<close>, \<^verbatim>\<open>argument\<close>, \<^verbatim>\<open>this\<close>, \<^verbatim>\<open>that\<close> and an
  index \<open>\<ge> 0\<close>: wherever the block of \<^verbatim>\<open>push segment index\<close> followed by the block of
  \<^verbatim>\<open>pop segment index\<close> stands in an assembled program, running the instructions of the
  two blocks, with the stack pointer above the registers (\<open>SP \<ge> 16\<close>), leaves the
  addressed word of the segment, the stack pointer, the four base pointers and every
  other word of memory as they were. The only words that may change are the free word
  at the stack pointer (above the top of the stack), which received the pushed value, and
  the scratch register \<^verbatim>\<open>R13\<close>, which a pop with a non-zero index uses for the address.
\<close>

theorem push_pop_roundtrip:
  assumes "assemble prog = Some rom"
      and "segment \<in> {''local'', ''argument'', ''this'', ''that''}" and "0 \<le> index"
      and "code_at prog p (lines_of (handlePush g segment index) @ lines_of (handlePop g segment index))"
      and "pc s = p" and "16 \<le> unat (ram s 0)"
  shows "\<exists>n s'. exec n rom s = Some s' \<and> pc s' = p + n \<and>
           n = length (handlePush_lines g segment index) + length (handlePop_lines g segment index) \<and>
           ram s' (ram s (segment_base segment) + word_of_int index)
             = ram s (ram s (segment_base segment) + word_of_int index) \<and>
           ram s' 0 = ram s 0 \<and>
           (\<forall>a. a \<noteq> ram s 0 \<and> a \<noteq> 13 \<longrightarrow> ram s' a = ram s a) \<and>
           (index = 0 \<longrightarrow> ram s' 13 = ram s 13)"
proof -
  let ?blk = "handlePush_lines g segment index @ handlePop_lines g segment index"
  from assms(4) have at: "code_at prog p ?blk"
    by (simp add: push_text [OF assms(2)] pop_text [OF assms(2)])
  from roundtrip_code [OF assms(2,3,6), of "label_table prog" g]
  obtain ins where ki: "known_instrs (label_table prog) (parsed ?blk) = Some ins"
    and nj: "list_all no_jump ins"
    and len: "length ins = length (handlePush_lines g segment index) + length (handlePop_lines g segment index)"
    and m: "ram (run ins s) =
             (if index = 0 then (ram s)(ram s 0 := ram s (ram s (segment_base segment)))
              else (ram s)(ram s 0 := ram s (ram s (segment_base segment) + word_of_int index),
                           13 := ram s (segment_base segment) + word_of_int index,
                           ram s (segment_base segment) + word_of_int index
                             := ram s (ram s (segment_base segment) + word_of_int index)))"
    by blast
  from run_code [OF assms(1) at ki nj assms(5)]
  have e: "exec (length ins) rom s = Some (run ins s)" and q: "pc (run ins s) = p + length ins"
    by simp_all
  note bf = base_facts [OF assms(2) assms(6)]
  have r: "ram (run ins s) (ram s (segment_base segment) + word_of_int index)
             = ram s (ram s (segment_base segment) + word_of_int index) \<and>
           ram (run ins s) 0 = ram s 0 \<and>
           (\<forall>a. a \<noteq> ram s 0 \<and> a \<noteq> 13 \<longrightarrow> ram (run ins s) a = ram s a) \<and>
           (index = 0 \<longrightarrow> ram (run ins s) 13 = ram s 13)"
    unfolding m using bf by auto
  show ?thesis
    using e q len r by blast
qed

theorem push_pop_roundtrip_witness:
  "assemble (lines_of (handlePush (initial_globals ''Prog'' False False False) ''local'' 2)
             @ lines_of (handlePop (initial_globals ''Prog'' False False False) ''local'' 2)) \<noteq> None \<and>
   code_at (lines_of (handlePush (initial_globals ''Prog'' False False False) ''local'' 2)
             @ lines_of (handlePop (initial_globals ''Prog'' False False False) ''local'' 2)) 0
           (lines_of (handlePush (initial_globals ''Prog'' False False False) ''local'' 2)
             @ lines_of (handlePop (initial_globals ''Prog'' False False False) ''local'' 2)) \<and>
   16 \<le> unat (300 :: 16 word) \<and>
   (\<exists>n s'. exec n (the (assemble
              (lines_of (handlePush (initial_globals ''Prog'' False False False) ''local'' 2)
               @ lines_of (handlePop (initial_globals ''Prog'' False False False) ''local'' 2))))
             \<lparr>areg = 0, dreg = 0, ram = (\<lambda>a. 0)(0 := 300, 1 := 256, 258 := 42), pc = 0\<rparr> = Some s' \<and>
          n = 24 \<and> pc s' = 24 \<and> ram s' 258 = 42 \<and> ram s' 0 = 300 \<and> ram s' 1 = 256)"
proof -
  let ?G = "initial_globals ''Prog'' False False False"
  let ?P = "lines_of (handlePush ?G ''local'' 2) @ lines_of (handlePop ?G ''local'' 2)"
  let ?s = "\<lparr>areg = 0, dreg = 0, ram = (\<lambda>a. 0)(0 := 300, 1 := 256, 258 := (42 :: 16 word)), pc = 0\<rparr>"
  obtain rom where a: "assemble ?P = Some rom"
    unfolding roundtrip_example_lines using roundtrip_example_rom by blast
  have c: "code_at ?P 0 ?P"
    unfolding code_at_def
    by (rule exI [of _ "[]"], rule exI [of _ "[]"]) (simp add: instr_count_def)
  have seg: "''local'' \<in> {''local'', ''argument'', ''this'', ''that''}" by simp
  have u: "16 \<le> unat (ram ?s 0)" by simp
  have len: "length (handlePush_lines ?G ''local'' 2) + length (handlePop_lines ?G ''local'' 2) = 24"
    by (simp add: handlePush_lines_def handlePop_lines_def)
  have i: "(0 :: int) \<le> 2" by simp
  have q: "pc ?s = 0" by simp
  from push_pop_roundtrip [OF a seg i c q u] len
  obtain n s' where "exec n rom ?s = Some s'" "n = 24" "pc s' = 24"
    "ram s' 258 = 42" "ram s' 0 = 300" "ram s' 1 = 256"
    by (auto simp: segment_base_def)
  with a c show ?thesis by auto
qed

subsection \<open>Comparisons\<close>



















subsection \<open>Call and return\<close>

lemma run_append: "run (xs @ ys) s = run ys (run xs s)"
  by (simp add: run_def)

lemma call_routine_run:
  fixes a0 a1 a2 a3 a4 a5 :: "16 word"
  assumes d: "distinct [0, 1, 2, 3, 4, 13, 14, a0, a1, a2, a3, a4]"
      and inc: "a0 + 1 = a1" "a1 + 1 = a2" "a2 + 1 = a3" "a3 + 1 = a4" "a4 + 1 = a5"
      and m0: "m 0 = a0"
  shows "run call_routine_code \<lparr>areg = x, dreg = wret, ram = m, pc = c\<rparr>
         = \<lparr>areg = m 13, dreg = a5,
            ram = m(a0 := wret, 0 := a1, a1 := m 1, 0 := a2, a2 := m 2, 0 := a3, a3 := m 3, 0 := a4,
                    a4 := m 4, 0 := a5, 2 := a5 - m 14 - 5, 1 := a5),
            pc = c + 47\<rparr>"
proof -
  let ?M1 = "m(a0 := wret, 0 := a1)"
  let ?M2 = "?M1(a1 := m 1, 0 := a2)"
  let ?M3 = "?M2(a2 := m 2, 0 := a3)"
  let ?M4 = "?M3(a3 := m 3, 0 := a4)"
  let ?M5 = "?M4(a4 := m 4, 0 := a5)"
  let ?M6 = "?M5(2 := a5 - m 14 - 5)"
  let ?M7 = "?M6(1 := a5)"
  have split: "call_routine_code =
      [AInstr 0, CInstr ValM (Dest True False False) NoJump,
         CInstr ValD (Dest False False True) NoJump, AInstr 0,
         CInstr IncM (Dest False False True) NoJump]
      @ [AInstr 1, CInstr ValM (Dest False True False) NoJump, AInstr 0,
         CInstr ValM (Dest True False False) NoJump, CInstr ValD (Dest False False True) NoJump,
         AInstr 0, CInstr IncM (Dest False False True) NoJump]
      @ [AInstr 2, CInstr ValM (Dest False True False) NoJump, AInstr 0,
         CInstr ValM (Dest True False False) NoJump, CInstr ValD (Dest False False True) NoJump,
         AInstr 0, CInstr IncM (Dest False False True) NoJump]
      @ [AInstr 3, CInstr ValM (Dest False True False) NoJump, AInstr 0,
         CInstr ValM (Dest True False False) NoJump, CInstr ValD (Dest False False True) NoJump,
         AInstr 0, CInstr IncM (Dest False False True) NoJump]
      @ [AInstr 4, CInstr ValM (Dest False True False) NoJump, AInstr 0,
         CInstr ValM (Dest True False False) NoJump, CInstr ValD (Dest False False True) NoJump,
         AInstr 0, CInstr IncM (Dest False False True) NoJump]
      @ [AInstr 0, CInstr ValM (Dest False True False) NoJump, AInstr 14,
         CInstr DminusM (Dest False True False) NoJump, AInstr 5,
         CInstr DminusA (Dest False True False) NoJump, AInstr 2,
         CInstr ValD (Dest False False True) NoJump]
      @ [AInstr 0, CInstr ValM (Dest False True False) NoJump, AInstr 1,
         CInstr ValD (Dest False False True) NoJump, AInstr 13,
         CInstr ValM (Dest True False False) NoJump]"
    by (simp add: call_routine_code_def)
  have s1: "run [AInstr 0, CInstr ValM (Dest True False False) NoJump,
                 CInstr ValD (Dest False False True) NoJump, AInstr 0,
                 CInstr IncM (Dest False False True) NoJump]
              \<lparr>areg = x, dreg = wret, ram = m, pc = c\<rparr>
         = \<lparr>areg = 0, dreg = wret, ram = ?M1, pc = c + 5\<rparr>"
    using d inc(1) m0 by (simp add: run_def Let_def)
  have s2: "run [AInstr 1, CInstr ValM (Dest False True False) NoJump, AInstr 0,
                 CInstr ValM (Dest True False False) NoJump,
                 CInstr ValD (Dest False False True) NoJump, AInstr 0,
                 CInstr IncM (Dest False False True) NoJump]
              \<lparr>areg = 0, dreg = wret, ram = ?M1, pc = c + 5\<rparr>
         = \<lparr>areg = 0, dreg = m 1, ram = ?M2, pc = c + 12\<rparr>"
    using d inc(2) by (simp add: run_def Let_def)
  have s3: "run [AInstr 2, CInstr ValM (Dest False True False) NoJump, AInstr 0,
                 CInstr ValM (Dest True False False) NoJump,
                 CInstr ValD (Dest False False True) NoJump, AInstr 0,
                 CInstr IncM (Dest False False True) NoJump]
              \<lparr>areg = 0, dreg = m 1, ram = ?M2, pc = c + 12\<rparr>
         = \<lparr>areg = 0, dreg = m 2, ram = ?M3, pc = c + 19\<rparr>"
    using d inc(3) by (simp add: run_def Let_def)
  have s4: "run [AInstr 3, CInstr ValM (Dest False True False) NoJump, AInstr 0,
                 CInstr ValM (Dest True False False) NoJump,
                 CInstr ValD (Dest False False True) NoJump, AInstr 0,
                 CInstr IncM (Dest False False True) NoJump]
              \<lparr>areg = 0, dreg = m 2, ram = ?M3, pc = c + 19\<rparr>
         = \<lparr>areg = 0, dreg = m 3, ram = ?M4, pc = c + 26\<rparr>"
    using d inc(4) by (simp add: run_def Let_def)
  have s5: "run [AInstr 4, CInstr ValM (Dest False True False) NoJump, AInstr 0,
                 CInstr ValM (Dest True False False) NoJump,
                 CInstr ValD (Dest False False True) NoJump, AInstr 0,
                 CInstr IncM (Dest False False True) NoJump]
              \<lparr>areg = 0, dreg = m 3, ram = ?M4, pc = c + 26\<rparr>
         = \<lparr>areg = 0, dreg = m 4, ram = ?M5, pc = c + 33\<rparr>"
    using d inc(5) by (simp add: run_def Let_def)
  have s6: "run [AInstr 0, CInstr ValM (Dest False True False) NoJump, AInstr 14,
                 CInstr DminusM (Dest False True False) NoJump, AInstr 5,
                 CInstr DminusA (Dest False True False) NoJump, AInstr 2,
                 CInstr ValD (Dest False False True) NoJump]
              \<lparr>areg = 0, dreg = m 4, ram = ?M5, pc = c + 33\<rparr>
         = \<lparr>areg = 2, dreg = a5 - m 14 - 5, ram = ?M6, pc = c + 41\<rparr>"
    using d by (simp add: run_def Let_def)
  have s7: "run [AInstr 0, CInstr ValM (Dest False True False) NoJump, AInstr 1,
                 CInstr ValD (Dest False False True) NoJump, AInstr 13,
                 CInstr ValM (Dest True False False) NoJump]
              \<lparr>areg = 2, dreg = a5 - m 14 - 5, ram = ?M6, pc = c + 41\<rparr>
         = \<lparr>areg = m 13, dreg = a5, ram = ?M7, pc = c + 47\<rparr>"
    using d by (simp add: run_def Let_def)
  show ?thesis
    by (simp only: split run_append s1 s2 s3 s4 s5 s6 s7)
qed

lemma return_routine_run:
  fixes a l t t1 b1 b2 b3 b4 b5 :: "16 word"
  assumes d: "distinct [0, 1, 2, 3, 4, 13, a, b1, b2, b3, b4]" and t1: "t1 \<noteq> 0" "t1 \<noteq> 13"
      and fr: "l - 5 = b5" "l - 1 = b1" "l - 2 = b2" "l - 3 = b3" "l - 4 = b4" "t - 1 = t1"
      and m: "m 0 = t" "m 1 = l" "m 2 = a"
  shows "run return_routine_code \<lparr>areg = x, dreg = y, ram = m, pc = r\<rparr>
         = \<lparr>areg = m b5, dreg = m b4,
            ram = m(13 := m b5, 0 := t1, a := m t1, 0 := a + 1, 4 := m b1, 3 := m b2, 2 := m b3,
                    1 := m b4),
            pc = r + 49\<rparr>"
proof -
  have d2: "b1 \<noteq> a" "b2 \<noteq> a" "b3 \<noteq> a" "b4 \<noteq> a" "a \<noteq> b1" "a \<noteq> b2" "a \<noteq> b3" "a \<noteq> b4"
    using d by auto
  let ?M1 = "m(13 := m b5)"
  let ?M2 = "?M1(0 := t1, a := m t1)"
  let ?M3 = "?M2(0 := a + 1)"
  let ?M4 = "?M3(4 := m b1)"
  let ?M5 = "?M4(3 := m b2)"
  let ?M6 = "?M5(2 := m b3)"
  let ?M7 = "?M6(1 := m b4)"
  have split: "return_routine_code =
      [AInstr 5, CInstr ValA (Dest False True False) NoJump, AInstr 1,
         CInstr MminusD (Dest True False False) NoJump,
         CInstr ValM (Dest False True False) NoJump, AInstr 13,
         CInstr ValD (Dest False False True) NoJump]
      @ [AInstr 0, CInstr DecM (Dest False False True) NoJump,
         CInstr ValM (Dest True False False) NoJump, CInstr ValM (Dest False True False) NoJump,
         AInstr 2, CInstr ValM (Dest True False False) NoJump,
         CInstr ValD (Dest False False True) NoJump]
      @ [AInstr 2, CInstr IncM (Dest False True False) NoJump, AInstr 0,
         CInstr ValD (Dest False False True) NoJump]
      @ [AInstr 1, CInstr DecM (Dest True False False) NoJump,
         CInstr ValM (Dest False True False) NoJump, AInstr 4,
         CInstr ValD (Dest False False True) NoJump]
      @ [AInstr 1, CInstr ValM (Dest False True False) NoJump, AInstr 2,
         CInstr DminusA (Dest False True False) NoJump,
         CInstr ValD (Dest True False False) NoJump, CInstr ValM (Dest False True False) NoJump,
         AInstr 3, CInstr ValD (Dest False False True) NoJump]
      @ [AInstr 1, CInstr ValM (Dest False True False) NoJump, AInstr 3,
         CInstr DminusA (Dest False True False) NoJump,
         CInstr ValD (Dest True False False) NoJump, CInstr ValM (Dest False True False) NoJump,
         AInstr 2, CInstr ValD (Dest False False True) NoJump]
      @ [AInstr 1, CInstr ValM (Dest False True False) NoJump, AInstr 4,
         CInstr DminusA (Dest False True False) NoJump,
         CInstr ValD (Dest True False False) NoJump, CInstr ValM (Dest False True False) NoJump,
         AInstr 1, CInstr ValD (Dest False False True) NoJump]
      @ [AInstr 13, CInstr ValM (Dest True False False) NoJump]"
    by (simp add: return_routine_code_def)
  have s1: "run [AInstr 5, CInstr ValA (Dest False True False) NoJump, AInstr 1,
                 CInstr MminusD (Dest True False False) NoJump,
                 CInstr ValM (Dest False True False) NoJump, AInstr 13,
                 CInstr ValD (Dest False False True) NoJump]
              \<lparr>areg = x, dreg = y, ram = m, pc = r\<rparr>
         = \<lparr>areg = 13, dreg = m b5, ram = ?M1, pc = r + 7\<rparr>"
    using fr(1) m by (simp add: run_def Let_def)
  have s2: "run [AInstr 0, CInstr DecM (Dest False False True) NoJump,
                 CInstr ValM (Dest True False False) NoJump,
                 CInstr ValM (Dest False True False) NoJump, AInstr 2,
                 CInstr ValM (Dest True False False) NoJump,
                 CInstr ValD (Dest False False True) NoJump]
              \<lparr>areg = 13, dreg = m b5, ram = ?M1, pc = r + 7\<rparr>
         = \<lparr>areg = a, dreg = m t1, ram = ?M2, pc = r + 14\<rparr>"
    using d t1 fr(6) m by (simp add: run_def Let_def)
  have s3: "run [AInstr 2, CInstr IncM (Dest False True False) NoJump, AInstr 0,
                 CInstr ValD (Dest False False True) NoJump]
              \<lparr>areg = a, dreg = m t1, ram = ?M2, pc = r + 14\<rparr>
         = \<lparr>areg = 0, dreg = a + 1, ram = ?M3, pc = r + 18\<rparr>"
    using d m by (simp add: run_def Let_def)
  have s4: "run [AInstr 1, CInstr DecM (Dest True False False) NoJump,
                 CInstr ValM (Dest False True False) NoJump, AInstr 4,
                 CInstr ValD (Dest False False True) NoJump]
              \<lparr>areg = 0, dreg = a + 1, ram = ?M3, pc = r + 18\<rparr>
         = \<lparr>areg = 4, dreg = m b1, ram = ?M4, pc = r + 23\<rparr>"
    using d d2 fr(2) m by (simp add: run_def Let_def)
  have s5: "run [AInstr 1, CInstr ValM (Dest False True False) NoJump, AInstr 2,
                 CInstr DminusA (Dest False True False) NoJump,
                 CInstr ValD (Dest True False False) NoJump,
                 CInstr ValM (Dest False True False) NoJump, AInstr 3,
                 CInstr ValD (Dest False False True) NoJump]
              \<lparr>areg = 4, dreg = m b1, ram = ?M4, pc = r + 23\<rparr>
         = \<lparr>areg = 3, dreg = m b2, ram = ?M5, pc = r + 31\<rparr>"
    using d d2 fr(3) m by (simp add: run_def Let_def)
  have s6: "run [AInstr 1, CInstr ValM (Dest False True False) NoJump, AInstr 3,
                 CInstr DminusA (Dest False True False) NoJump,
                 CInstr ValD (Dest True False False) NoJump,
                 CInstr ValM (Dest False True False) NoJump, AInstr 2,
                 CInstr ValD (Dest False False True) NoJump]
              \<lparr>areg = 3, dreg = m b2, ram = ?M5, pc = r + 31\<rparr>
         = \<lparr>areg = 2, dreg = m b3, ram = ?M6, pc = r + 39\<rparr>"
    using d d2 fr(4) m by (simp add: run_def Let_def)
  have s7: "run [AInstr 1, CInstr ValM (Dest False True False) NoJump, AInstr 4,
                 CInstr DminusA (Dest False True False) NoJump,
                 CInstr ValD (Dest True False False) NoJump,
                 CInstr ValM (Dest False True False) NoJump, AInstr 1,
                 CInstr ValD (Dest False False True) NoJump]
              \<lparr>areg = 2, dreg = m b3, ram = ?M6, pc = r + 39\<rparr>
         = \<lparr>areg = 1, dreg = m b4, ram = ?M7, pc = r + 47\<rparr>"
    using d d2 fr(5) m by (simp add: run_def Let_def)
  have s8: "run [AInstr 13, CInstr ValM (Dest True False False) NoJump]
              \<lparr>areg = 1, dreg = m b4, ram = ?M7, pc = r + 47\<rparr>
         = \<lparr>areg = m b5, dreg = m b4, ram = ?M7, pc = r + 49\<rparr>"
    using d by (simp add: run_def Let_def)
  show ?thesis
    by (simp only: split run_append s1 s2 s3 s4 s5 s6 s7 s8)
qed

lemma routine_code_facts:
  "list_all no_jump call_routine_code" "length call_routine_code = 47"
  "list_all no_jump return_routine_code" "length return_routine_code = 49"
  by (simp_all add: call_routine_code_def return_routine_code_def)

lemma call_exec:
  fixes a0 a1 a2 a3 a4 a5 :: "16 word"
  assumes site: "rom_has rom p
         [AInstr wfun, CInstr ValA (Dest False True False) NoJump, AInstr 13,
           CInstr ValD (Dest False False True) NoJump, AInstr wn,
           CInstr ValA (Dest False True False) NoJump, AInstr 14,
           CInstr ValD (Dest False False True) NoJump, AInstr wret,
           CInstr ValA (Dest False True False) NoJump, AInstr wc,
           CInstr Zero (Dest False False False) JMP]"
      and routine: "rom_has rom c (call_routine_code @ [CInstr Zero (Dest False False False) JMP])"
      and uc: "unat wc = c" and pc: "pc s = p"
      and d: "distinct [0, 1, 2, 3, 4, 13, 14, a0, a1, a2, a3, a4]"
      and inc: "a0 + 1 = a1" "a1 + 1 = a2" "a2 + 1 = a3" "a3 + 1 = a4" "a4 + 1 = a5"
      and m0: "ram s 0 = a0"
  shows "exec 60 rom s
         = Some \<lparr>areg = wfun, dreg = a5,
            ram = (ram s)(13 := wfun, 14 := wn, a0 := wret, 0 := a1, a1 := ram s 1, 0 := a2,
                    a2 := ram s 2, 0 := a3, a3 := ram s 3, 0 := a4, a4 := ram s 4, 0 := a5,
                    2 := a5 - wn - 5, 1 := a5),
            pc = unat wfun\<rparr>"
proof -
  let ?m = "(ram s)(13 := wfun, 14 := wn)"
  let ?s1 = "\<lparr>areg = wc, dreg = wret, ram = ?m, pc = c\<rparr>"
  have e1: "exec 12 rom s = Some ?s1"
    using exec_run_jump_n [of rom s
        "[AInstr wfun, CInstr ValA (Dest False True False) NoJump, AInstr 13,
          CInstr ValD (Dest False False True) NoJump, AInstr wn,
          CInstr ValA (Dest False True False) NoJump, AInstr 14,
          CInstr ValD (Dest False False True) NoJump, AInstr wret,
          CInstr ValA (Dest False True False) NoJump, AInstr wc]"
        "CInstr Zero (Dest False False False) JMP" 12] site pc uc
    by (simp add: run_def Let_def)
  let ?s2 = "\<lparr>areg = ?m 13, dreg = a5,
            ram = ?m(a0 := wret, 0 := a1, a1 := ?m 1, 0 := a2, a2 := ?m 2, 0 := a3, a3 := ?m 3, 0 := a4,
                    a4 := ?m 4, 0 := a5, 2 := a5 - ?m 14 - 5, 1 := a5),
            pc = c + 47\<rparr>"
  let ?s3 = "\<lparr>areg = wfun, dreg = a5,
            ram = (ram s)(13 := wfun, 14 := wn, a0 := wret, 0 := a1, a1 := ram s 1, 0 := a2,
                    a2 := ram s 2, 0 := a3, a3 := ram s 3, 0 := a4, a4 := ram s 4, 0 := a5,
                    2 := a5 - wn - 5, 1 := a5),
            pc = unat wfun\<rparr>"
  have r1: "exec 48 rom ?s1 = Some (exec_instr (CInstr Zero (Dest False False False) JMP) (run call_routine_code ?s1))"
    by (rule exec_run_jump_n) (use routine in \<open>simp_all add: routine_code_facts\<close>)
  have r2: "run call_routine_code ?s1 = ?s2"
    by (rule call_routine_run [OF d inc]) (simp add: m0)
  have r3: "exec_instr (CInstr Zero (Dest False False False) JMP) ?s2 = ?s3"
    by (simp add: Let_def)
  have e2: "exec 48 rom ?s1 = Some ?s3"
    by (simp only: r1 r2 r3)
  from exec_trans [OF e1 e2] show ?thesis by simp
qed

lemma return_exec:
  fixes a l t t1 b1 b2 b3 b4 b5 :: "16 word"
  assumes cmd: "rom_has rom q [AInstr wr, CInstr Zero (Dest False False False) JMP]"
      and routine: "rom_has rom r (return_routine_code @ [CInstr Zero (Dest False False False) JMP])"
      and ur: "unat wr = r" and pc: "pc s = q"
      and d: "distinct [0, 1, 2, 3, 4, 13, a, b1, b2, b3, b4]" and t1: "t1 \<noteq> 0" "t1 \<noteq> 13"
      and fr: "l - 5 = b5" "l - 1 = b1" "l - 2 = b2" "l - 3 = b3" "l - 4 = b4" "t - 1 = t1"
      and m: "ram s 0 = t" "ram s 1 = l" "ram s 2 = a"
  shows "exec 52 rom s
         = Some \<lparr>areg = ram s b5, dreg = ram s b4,
            ram = (ram s)(13 := ram s b5, 0 := t1, a := ram s t1, 0 := a + 1, 4 := ram s b1,
                    3 := ram s b2, 2 := ram s b3, 1 := ram s b4),
            pc = unat (ram s b5)\<rparr>"
proof -
  let ?s1 = "\<lparr>areg = wr, dreg = dreg s, ram = ram s, pc = r\<rparr>"
  have e1: "exec 2 rom s = Some ?s1"
    using exec_run_jump_n [of rom s "[AInstr wr]" "CInstr Zero (Dest False False False) JMP" 2] cmd pc ur
    by (simp add: run_def Let_def)
  let ?s2 = "\<lparr>areg = ram s b5, dreg = ram s b4,
            ram = (ram s)(13 := ram s b5, 0 := t1, a := ram s t1, 0 := a + 1, 4 := ram s b1,
                    3 := ram s b2, 2 := ram s b3, 1 := ram s b4),
            pc = r + 49\<rparr>"
  let ?s3 = "\<lparr>areg = ram s b5, dreg = ram s b4,
            ram = (ram s)(13 := ram s b5, 0 := t1, a := ram s t1, 0 := a + 1, 4 := ram s b1,
                    3 := ram s b2, 2 := ram s b3, 1 := ram s b4),
            pc = unat (ram s b5)\<rparr>"
  have r1: "exec 50 rom ?s1 = Some (exec_instr (CInstr Zero (Dest False False False) JMP) (run return_routine_code ?s1))"
    by (rule exec_run_jump_n) (use routine in \<open>simp_all add: routine_code_facts\<close>)
  have r2: "run return_routine_code ?s1 = ?s2"
    by (rule return_routine_run [OF d t1 fr]) (simp_all add: m)
  have r3: "exec_instr (CInstr Zero (Dest False False False) JMP) ?s2 = ?s3"
    by (simp add: Let_def)
  have e2: "exec 50 rom ?s1 = Some ?s3"
    by (simp only: r1 r2 r3)
  from exec_trans [OF e1 e2] show ?thesis by simp
qed

lemma distinct_unat: "distinct (map unat xs) \<Longrightarrow> distinct xs"
  by (simp add: distinct_map)

lemma unat_plus_small:
  fixes sp k :: "16 word"
  shows "unat sp + unat k < 65536 \<Longrightarrow> unat (sp + k) = unat sp + unat k"
  using unat_add_lem [of sp k] by simp

lemma unat_minus_small:
  fixes sp N :: "16 word"
  shows "unat N \<le> unat sp \<Longrightarrow> unat (sp - N) = unat sp - unat N"
  by (simp add: unat_sub word_le_nat_alt)

lemma call_frame_distinct:
  fixes sp :: "16 word"
  assumes "16 \<le> unat sp" "unat sp + 5 < 65536"
  shows "distinct [0, 1, 2, 3, 4, 13, 14, sp, sp + 1, sp + 2, sp + 3, sp + 4]"
proof -
  have u: "unat (sp + 1) = unat sp + 1" "unat (sp + 2) = unat sp + 2" "unat (sp + 3) = unat sp + 3"
    "unat (sp + 4) = unat sp + 4"
    using assms(2) by (simp_all add: unat_plus_small)
  have "distinct (map unat [0, 1, 2, 3, 4, 13, 14, sp, sp + 1, sp + 2, sp + 3, sp + 4])"
    using assms(1) by (simp add: u)
  then show ?thesis by (rule distinct_unat)
qed

lemma return_frame_distinct:
  fixes sp N :: "16 word"
  assumes "unat N + 16 \<le> unat sp" "unat sp + 5 < 65536"
  shows "distinct [0, 1, 2, 3, 4, 13, sp - N, sp + 4, sp + 3, sp + 2, sp + 1]"
proof -
  have u: "unat (sp + 1) = unat sp + 1" "unat (sp + 2) = unat sp + 2" "unat (sp + 3) = unat sp + 3"
    "unat (sp + 4) = unat sp + 4" "unat (sp - N) = unat sp - unat N"
    using assms by (simp_all add: unat_plus_small unat_minus_small)
  have "distinct (map unat [0, 1, 2, 3, 4, 13, sp - N, sp + 4, sp + 3, sp + 2, sp + 1])"
    using assms(1) by (simp add: u) arith
  then show ?thesis by (rule distinct_unat)
qed

lemma top_cell:
  fixes sp t :: "16 word"
  assumes "16 \<le> unat sp" "unat sp + 5 \<le> unat t"
  shows "t - 1 \<noteq> 0" "t - 1 \<noteq> 13"
proof -
  have "unat (t - 1) = unat t - unat (1 :: 16 word)"
    using assms by (intro unat_minus_small) simp
  then have "unat (t - 1) \<noteq> unat (0 :: 16 word)" "unat (t - 1) \<noteq> unat (13 :: 16 word)"
    using assms by simp_all
  then show "t - 1 \<noteq> 0" "t - 1 \<noteq> 13" by auto
qed

lemma frame_cells:
  fixes sp :: "16 word"
  shows "sp + 5 - 5 = sp" "sp + 5 - 1 = sp + 4" "sp + 5 - 2 = sp + 3" "sp + 5 - 3 = sp + 2"
    "sp + 5 - 4 = sp + 1" "sp + 1 + 1 = sp + 2" "sp + 2 + 1 = sp + 3" "sp + 3 + 1 = sp + 4"
    "sp + 4 + 1 = sp + 5" "sp - N + 1 - 1 = sp - N" "sp + 5 - N - 5 = sp - N"
  by simp_all

lemma new_top:
  fixes sp N :: "16 word"
  assumes "unat N + 16 \<le> unat sp" "unat sp + 5 < 65536"
  shows "unat (sp - N + 1) = unat sp - unat N + 1"
proof -
  have "unat (sp - N) = unat sp - unat N"
    using assms by (simp add: unat_minus_small)
  moreover have "unat (sp - N + 1) = unat (sp - N) + unat (1 :: 16 word)"
    using assms calculation by (intro unat_plus_small) simp
  ultimately show ?thesis by simp
qed

lemma unat_arg: "0 \<le> n \<Longrightarrow> n < 65536 \<Longrightarrow> unat (word_of_int n :: 16 word) = nat n"
  by (simp add: unat_eq_nat_uint uint_word_of_int take_bit_eq_mod)

lemma call_frame_lookup:
  fixes a0 a1 a2 a3 a4 a5 :: "16 word"
  assumes d: "distinct [0, 1, 2, 3, 4, 13, 14, a0, a1, a2, a3, a4]"
      and M: "M = m(13 := wfun, 14 := wn, a0 := wret, 0 := a1, a1 := m 1, 0 := a2, a2 := m 2,
                    0 := a3, a3 := m 3, 0 := a4, a4 := m 4, 0 := a5, 2 := v, 1 := a5)"
  shows "M 0 = a5" "M 1 = a5" "M 2 = v" "M 3 = m 3" "M 4 = m 4" "M 13 = wfun" "M 14 = wn"
    "M a0 = wret" "M a1 = m 1" "M a2 = m 2" "M a3 = m 3" "M a4 = m 4"
    "\<forall>x. x \<notin> {0, 1, 2, 13, 14, a0, a1, a2, a3, a4} \<longrightarrow> M x = m x"
  using d by (auto simp: M)

lemma return_frame_lookup:
  fixes a t1 :: "16 word"
  assumes d: "distinct [0, 1, 2, 3, 4, 13, a]"
      and M: "M = m(13 := r, 0 := t1, a := v, 0 := a + 1, 4 := w4, 3 := w3, 2 := w2, 1 := w1)"
  shows "M 0 = a + 1" "M 1 = w1" "M 2 = w2" "M 3 = w3" "M 4 = w4" "M a = v"
    "\<forall>x. x \<notin> {0, 1, 2, 3, 4, 13, a} \<longrightarrow> M x = m x"
  using d by (auto simp: M)

lemma call_site_text:
  assumes "nl \<notin> set (getFolderName g)" "nl \<notin> set name" "nl \<notin> set (current (funcStack g))"
  shows "lines_of (block (callFunction_lines g name n)) = callFunction_lines g name n"
proof (rule lines_of_block)
  show "\<forall>l\<in>set (callFunction_lines g name n). l \<noteq> [] \<and> nl \<notin> set l"
    using assms
    by (auto simp: callFunction_lines_def returnLabel_def Itoa_no_newline nl_def locRegister_def
        valueRegister_def)
qed

lemma function_text:
  assumes "nl \<notin> set (getFolderName g)" "nl \<notin> set name"
  shows "lines_of (block (function_lines g name k)) = function_lines g name k"
proof (rule lines_of_block)
  show "\<forall>l\<in>set (function_lines g name k). l \<noteq> [] \<and> nl \<notin> set l"
    using assms by (auto simp: function_lines_def initLocalVariable_def nl_def)
qed

lemma call_routine_text: "lines_of (hd createCallRoutine) = createCallRoutine_lines"
  unfolding createCallRoutine_def list.sel
  by (rule lines_of_block) (simp add: createCallRoutine_lines_def nl_def locRegister_def valueRegister_def)

lemma return_routine_text: "lines_of (hd createReturnRoutine) = createReturnRoutine_lines"
  unfolding createReturnRoutine_def list.sel
  by (rule lines_of_block) (simp add: createReturnRoutine_lines_def nl_def locRegister_def)

lemma return_text: "lines_of returnFromFunction = returnFromFunction_lines"
  unfolding returnFromFunction_def
  by (rule lines_of_block) (simp add: returnFromFunction_lines_def nl_def)

lemma call_routine_instrs:
  "known_instrs L (parsed createCallRoutine_lines)
     = Some (call_routine_code @ [CInstr Zero (Dest False False False) JMP])"
  by (simp add: createCallRoutine_lines_def call_routine_code_def locRegister_def valueRegister_def
      asm_eval dec_val_def digit_val_def)

lemma return_routine_instrs:
  "known_instrs L (parsed createReturnRoutine_lines)
     = Some (return_routine_code @ [CInstr Zero (Dest False False False) JMP])"
  by (simp add: createReturnRoutine_lines_def return_routine_code_def locRegister_def
      asm_eval dec_val_def digit_val_def)

lemma returnLabel_facts: "returnLabel g \<noteq> []" "CHR ''.'' \<in> set (returnLabel g)"
  by (simp_all add: returnLabel_def)

lemma call_site_instrs:
  assumes "L (getFolderName g @ ''.'' @ name) = Some f" "L (returnLabel g) = Some ret"
      and "L ''CALL'' = Some c" "0 \<le> n"
  shows "known_instrs L (parsed (callFunction_lines g name n))
     = Some [AInstr (word_of_nat f), CInstr ValA (Dest False True False) NoJump,
             AInstr 13, CInstr ValD (Dest False False True) NoJump,
             AInstr (word_of_int n), CInstr ValA (Dest False True False) NoJump,
             AInstr 14, CInstr ValD (Dest False False True) NoJump,
             AInstr (word_of_nat ret), CInstr ValA (Dest False True False) NoJump,
             AInstr (word_of_nat c), CInstr Zero (Dest False False False) JMP]"
proof -
  let ?F = "getFolderName g @ ''.'' @ name"
  have res: "resolve L ?F = Some f" "resolve L (returnLabel g) = Some ret" "resolve L ''CALL'' = Some c"
    "resolve L (Itoa n) = Some (nat n)"
    using assms resolve_dotted [of ?F L] resolve_dotted [of "returnLabel g" L] returnLabel_facts [of g]
      resolve_Itoa [of n L]
    by (simp_all add: resolve_def numeric_def is_digit_def predefined_def)
  have pl: "parsed (callFunction_lines g name n)
      = [AAt ?F, AComp ValA (Dest False True False) NoJump,
         AAt ''R13'', AComp ValD (Dest False False True) NoJump,
         AAt (Itoa n), AComp ValA (Dest False True False) NoJump,
         AAt ''R14'', AComp ValD (Dest False False True) NoJump,
         AAt (returnLabel g), AComp ValA (Dest False True False) NoJump,
         AAt ''CALL'', AComp Zero (Dest False False False) JMP, ALabel (returnLabel g)]"
    by (simp add: callFunction_lines_def parsed_def parse_line_at parse_line_label_line
          Itoa_nonempty returnLabel_facts locRegister_def valueRegister_def;
        simp add: parse_line_def parse_compute_def comp_table_def dest_table_def jump_table_def)
  show ?thesis
    using assms(4)
    by (simp only: pl known_instrs.simps res resolve_predefined option.simps map_option_case
        word_of_nat_nat of_nat_numeral)
qed

lemma return_command_instrs:
  assumes "L ''RETURN'' = Some r"
  shows "known_instrs L (parsed returnFromFunction_lines)
     = Some [AInstr (word_of_nat r), CInstr Zero (Dest False False False) JMP]"
  using assms by (simp add: returnFromFunction_lines_def asm_eval)

lemma call_return_code:
  assumes asm: "assemble prog = Some rom" and n: "0 \<le> n"
      and nonl: "nl \<notin> set (getFolderName g)" "nl \<notin> set name" "nl \<notin> set (current (funcStack g))"
      and site: "code_at prog p (lines_of (block (callFunction_lines g name n)))"
      and cr: "code_at prog c (lines_of (hd createCallRoutine))"
      and rr: "code_at prog r (lines_of (hd createReturnRoutine))"
      and fe: "code_at prog f (lines_of (block (function_lines g0 name k)))"
      and gf: "getFolderName g0 = getFolderName g"
      and rc: "code_at prog q (lines_of returnFromFunction)"
  shows "rom_has rom p
           [AInstr (word_of_nat f), CInstr ValA (Dest False True False) NoJump,
            AInstr 13, CInstr ValD (Dest False False True) NoJump,
            AInstr (word_of_int n), CInstr ValA (Dest False True False) NoJump,
            AInstr 14, CInstr ValD (Dest False False True) NoJump,
            AInstr (word_of_nat (p + 12)), CInstr ValA (Dest False True False) NoJump,
            AInstr (word_of_nat c), CInstr Zero (Dest False False False) JMP]"
    and "rom_has rom c (call_routine_code @ [CInstr Zero (Dest False False False) JMP])"
    and "rom_has rom q [AInstr (word_of_nat r), CInstr Zero (Dest False False False) JMP]"
    and "rom_has rom r (return_routine_code @ [CInstr Zero (Dest False False False) JMP])"
    and "unat (word_of_nat c :: 16 word) = c" and "unat (word_of_nat r :: 16 word) = r"
    and "unat (word_of_nat f :: 16 word) = f" and "unat (word_of_nat (p + 12) :: 16 word) = p + 12"
proof -
  let ?L = "label_table prog"
  let ?F = "getFolderName g @ ''.'' @ name"
  from site have st: "code_at prog p (callFunction_lines g name n)"
    by (simp only: call_site_text [OF nonl])
  from cr have cr': "code_at prog c createCallRoutine_lines" by (simp only: call_routine_text)
  from rr have rr': "code_at prog r createReturnRoutine_lines" by (simp only: return_routine_text)
  from rc have rc': "code_at prog q returnFromFunction_lines" by (simp only: return_text)
  from nonl(1) gf have n0: "nl \<notin> set (getFolderName g0)" by simp
  from fe have fe': "code_at prog f (function_lines g0 name k)"
    by (simp only: function_text [OF n0 nonl(2)])
  then have fl: "code_at prog f ((''('' @ ?F @ '')'') # concat (replicate (nat k) initLocalVariable))"
    using gf by (simp add: function_lines_def)
  have l1: "?L ''CALL'' = Some c"
    using assemble_label [OF asm, of c "''CALL''" "tl createCallRoutine_lines"] cr'
    by (simp add: createCallRoutine_lines_def)
  have l2: "?L ''RETURN'' = Some r"
    using assemble_label [OF asm, of r "''RETURN''" "tl createReturnRoutine_lines"] rr'
    by (simp add: createReturnRoutine_lines_def)
  have l3: "?L ?F = Some f"
    by (rule assemble_label [OF asm fl]) simp
  have l4: "?L (returnLabel g) = Some (p + 12)"
    using code_at_label [OF asm, of p "take 12 (callFunction_lines g name n)" "returnLabel g" "[]"] st
    by (simp add: callFunction_lines_def instr_count_def HasPrefix_def returnLabel_facts
        locRegister_def valueRegister_def)
  note hs = assemble_code_at [OF asm st call_site_instrs [where L = ?L, OF l3 l4 l1 n]]
  note hc = assemble_code_at [OF asm cr' call_routine_instrs]
  note hr = assemble_code_at [OF asm rr' return_routine_instrs]
  note hq = assemble_code_at [OF asm rc' return_command_instrs [where L = ?L, OF l2]]
  note len = assemble_parts(4) [OF asm]
  have "code_at prog f ([''('' @ ?F @ '')''] @ concat (replicate (nat k) initLocalVariable))"
    using fl by simp
  from code_at_append [OF this] have "code_at prog f [''('' @ ?F @ '')'']" by simp
  moreover have "parse_line (''('' @ ?F @ '')'') = Some (ALabel ?F)"
    using parse_line_label_line [of ?F] by simp
  then have "known_instrs ?L (parsed [''('' @ ?F @ '')'']) = Some []"
    by (simp add: parsed_def)
  ultimately have hf: "rom_has rom f []" by (rule assemble_code_at [OF asm])
  from rom_has_bound [OF hs] len have pb: "p + 12 \<le> 32768" by simp
  from rom_has_bound [OF hc] len have cb: "c \<le> 32768" by (simp add: routine_code_facts)
  from rom_has_bound [OF hr] len have rb: "r \<le> 32768" by (simp add: routine_code_facts)
  from rom_has_bound [OF hf] len have fb: "f \<le> 32768" by simp
  show "rom_has rom p
           [AInstr (word_of_nat f), CInstr ValA (Dest False True False) NoJump,
            AInstr 13, CInstr ValD (Dest False False True) NoJump,
            AInstr (word_of_int n), CInstr ValA (Dest False True False) NoJump,
            AInstr 14, CInstr ValD (Dest False False True) NoJump,
            AInstr (word_of_nat (p + 12)), CInstr ValA (Dest False True False) NoJump,
            AInstr (word_of_nat c), CInstr Zero (Dest False False False) JMP]"
    by (rule hs)
  show "rom_has rom c (call_routine_code @ [CInstr Zero (Dest False False False) JMP])" by (rule hc)
  show "rom_has rom q [AInstr (word_of_nat r), CInstr Zero (Dest False False False) JMP]" by (rule hq)
  show "rom_has rom r (return_routine_code @ [CInstr Zero (Dest False False False) JMP])" by (rule hr)
  show "unat (word_of_nat c :: 16 word) = c" by (rule unat_address [OF cb])
  show "unat (word_of_nat r :: 16 word) = r" by (rule unat_address [OF rb])
  show "unat (word_of_nat f :: 16 word) = f" by (rule unat_address [OF fb])
  show "unat (word_of_nat (p + 12) :: 16 word) = p + 12" by (rule unat_address [OF pb])
qed

text \<open>
  Claim C1. Take an assembled program that holds the block emitted for a call of a
  function with \<open>n \<ge> 0\<close> arguments, the shared routines \<^verbatim>\<open>CALL\<close> and \<^verbatim>\<open>RETURN\<close>, the
  entry label of the callee and a \<^verbatim>\<open>return\<close> command, and a state at the call whose stack
  holds the arguments above the registers (\<open>n + 16 \<le> SP\<close>, and five more words fit).
  The 60 instructions of the call reach the entry of the callee with the callee address in
  \<^verbatim>\<open>R13\<close> and \<open>n\<close> in \<^verbatim>\<open>R14\<close>, the return address and the caller's \<^verbatim>\<open>LCL\<close>, \<^verbatim>\<open>ARG\<close>,
  \<^verbatim>\<open>THIS\<close> and \<^verbatim>\<open>THAT\<close> in the five words from the old stack pointer on, the new stack
  pointer five words above the old one, \<open>ARG = SP - n - 5\<close> and \<open>LCL = SP\<close>, and nothing else
  changed. From there, whenever the callee reaches a \<^verbatim>\<open>return\<close> command, after any number
  \<open>k\<close> of instructions, with \<^verbatim>\<open>LCL\<close>, \<^verbatim>\<open>ARG\<close> and the five saved words as the call left
  them and its stack pointer not below them, the 52 instructions of the return come back
  to the instruction after the call with the stack pointer equal to the one before the
  call minus \<open>n\<close> plus 1, with \<^verbatim>\<open>LCL\<close>, \<^verbatim>\<open>ARG\<close>, \<^verbatim>\<open>THIS\<close> and \<^verbatim>\<open>THAT\<close> as before the
  call, and with the word that was on top of the callee's stack in the new top word;
  besides these only \<^verbatim>\<open>R13\<close> changes. In particular, when the \<^verbatim>\<open>return\<close> command stands
  at the entry of the callee, so that the return follows the call at once, the 112
  instructions of call and return restore the four pointers and leave the stack pointer at
  the old one minus \<open>n\<close> plus 1; the word on top of the callee's stack, which the return
  copies to the new top, is then the saved \<^verbatim>\<open>THAT\<close>.
\<close>

theorem call_return_restores_frame:
  assumes asm: "assemble prog = Some rom"
      and call: "callFunction g name nArgs = Inr (site, g')" and n: "Atoi nArgs = Some n" "0 \<le> n"
      and nonl: "nl \<notin> set (getFolderName g)" "nl \<notin> set name" "nl \<notin> set (current (funcStack g))"
      and fn: "function_cmd g0 name nVars = Inr (entry, g1)" "pathToTranslate g0 = pathToTranslate g"
      and site: "code_at prog p (lines_of site)"
      and cr: "code_at prog c (lines_of (hd createCallRoutine))"
      and rr: "code_at prog r (lines_of (hd createReturnRoutine))"
      and fe: "code_at prog f (lines_of entry)"
      and rc: "code_at prog q (lines_of returnFromFunction)"
      and pc: "pc s = p"
      and sp: "nat n + 16 \<le> unat (ram s 0)" "unat (ram s 0) + 5 < 65536"
  shows "(\<exists>s1. exec 60 rom s = Some s1 \<and> pc s1 = f \<and>
           ram s1 13 = word_of_nat f \<and> ram s1 14 = word_of_int n \<and>
           ram s1 (ram s 0) = word_of_nat (p + 12) \<and>
           ram s1 (ram s 0 + 1) = ram s 1 \<and> ram s1 (ram s 0 + 2) = ram s 2 \<and>
           ram s1 (ram s 0 + 3) = ram s 3 \<and> ram s1 (ram s 0 + 4) = ram s 4 \<and>
           ram s1 0 = ram s 0 + 5 \<and> ram s1 1 = ram s 0 + 5 \<and>
           ram s1 2 = ram s 0 + 5 - word_of_int n - 5 \<and>
           ram s1 3 = ram s 3 \<and> ram s1 4 = ram s 4 \<and>
           (\<forall>x. x \<notin> {0, 1, 2, 13, 14, ram s 0, ram s 0 + 1, ram s 0 + 2, ram s 0 + 3, ram s 0 + 4}
              \<longrightarrow> ram s1 x = ram s x) \<and>
           (\<forall>k s2. exec k rom s1 = Some s2 \<and> pc s2 = q \<and>
                   (\<forall>x\<in>{1, 2, ram s 0, ram s 0 + 1, ram s 0 + 2, ram s 0 + 3, ram s 0 + 4}.
                      ram s2 x = ram s1 x) \<and>
                   unat (ram s 0) + 5 \<le> unat (ram s2 0) \<longrightarrow>
              (\<exists>s'. exec (60 + k + 52) rom s = Some s' \<and> pc s' = p + 12 \<and>
                    unat (ram s' 0) = unat (ram s 0) - nat n + 1 \<and>
                    ram s' 1 = ram s 1 \<and> ram s' 2 = ram s 2 \<and>
                    ram s' 3 = ram s 3 \<and> ram s' 4 = ram s 4 \<and>
                    ram s' (ram s' 0 - 1) = ram s2 (ram s2 0 - 1) \<and>
                    (\<forall>x. x \<notin> {0, 1, 2, 3, 4, 13, ram s' 0 - 1} \<longrightarrow> ram s' x = ram s2 x)))) \<and>
         (q = f \<longrightarrow>
            (\<exists>s'. exec 112 rom s = Some s' \<and> pc s' = p + 12 \<and>
                  unat (ram s' 0) = unat (ram s 0) - nat n + 1 \<and>
                  ram s' 1 = ram s 1 \<and> ram s' 2 = ram s 2 \<and>
                  ram s' 3 = ram s 3 \<and> ram s' 4 = ram s 4 \<and>
                  ram s' (ram s' 0 - 1) = ram s 4))"
proof -
  let ?sp = "ram s 0"
  let ?N = "word_of_int n :: 16 word"
  let ?wf = "word_of_nat f :: 16 word"
  let ?wret = "word_of_nat (p + 12) :: 16 word"
  from call n(1) have site_eq: "site = block (callFunction_lines g name n)"
    by (simp add: callFunction_def)
  from fn(1) obtain k where entry_eq: "entry = block (function_lines g0 name k)"
    by (auto simp: function_cmd_def split: option.splits)
  from fn(2) have gf: "getFolderName g0 = getFolderName g"
    by (simp add: getFolderName_def)
  note cd = call_return_code [OF asm n(2) nonl site [unfolded site_eq] cr rr fe [unfolded entry_eq] gf rc]
  from sp have sp16: "16 \<le> unat ?sp" and nb: "n < 65536" by simp_all
  have uN: "unat ?N = nat n" by (rule unat_arg [OF n(2) nb])
  from sp(1) uN have spN: "unat ?N + 16 \<le> unat ?sp" by simp
  note d1 = call_frame_distinct [OF sp16 sp(2)]
  note d2 = return_frame_distinct [OF spN sp(2)]
  from d2 have d3: "distinct [0, 1, 2, 3, 4, 13, ?sp - ?N]" by simp
  \<comment> \<open>the call\<close>
  let ?M1 = "(ram s)(13 := ?wf, 14 := ?N, ?sp := ?wret, 0 := ?sp + 1, ?sp + 1 := ram s 1,
               0 := ?sp + 2, ?sp + 2 := ram s 2, 0 := ?sp + 3, ?sp + 3 := ram s 3, 0 := ?sp + 4,
               ?sp + 4 := ram s 4, 0 := ?sp + 5, 2 := ?sp + 5 - ?N - 5, 1 := ?sp + 5)"
  let ?s1 = "\<lparr>areg = ?wf, dreg = ?sp + 5, ram = ?M1, pc = unat ?wf\<rparr>"
  have e1: "exec 60 rom s = Some ?s1"
    by (rule call_exec [OF cd(1) cd(2) cd(5) pc d1 refl frame_cells(6-9) refl])
  have pc1: "pc ?s1 = f" using cd(7) by simp
  have M1: "ram ?s1 = ?M1" by simp
  note k1 = call_frame_lookup [OF d1 M1]
  \<comment> \<open>the return\<close>
  have ret: "\<exists>s'. exec (60 + k + 52) rom s = Some s' \<and> pc s' = p + 12 \<and>
                    unat (ram s' 0) = unat ?sp - nat n + 1 \<and>
                    ram s' 1 = ram s 1 \<and> ram s' 2 = ram s 2 \<and>
                    ram s' 3 = ram s 3 \<and> ram s' 4 = ram s 4 \<and>
                    ram s' (ram s' 0 - 1) = ram s2 (ram s2 0 - 1) \<and>
                    (\<forall>x. x \<notin> {0, 1, 2, 3, 4, 13, ram s' 0 - 1} \<longrightarrow> ram s' x = ram s2 x)"
    if ek: "exec k rom ?s1 = Some s2" and pc2: "pc s2 = q"
      and fr: "\<forall>x\<in>{1, 2, ?sp, ?sp + 1, ?sp + 2, ?sp + 3, ?sp + 4}. ram s2 x = ram ?s1 x"
      and top: "unat ?sp + 5 \<le> unat (ram s2 0)"
    for k s2
  proof -
    from fr have f2: "ram s2 1 = ram ?s1 1" "ram s2 2 = ram ?s1 2" "ram s2 ?sp = ram ?s1 ?sp"
      "ram s2 (?sp + 1) = ram ?s1 (?sp + 1)" "ram s2 (?sp + 2) = ram ?s1 (?sp + 2)"
      "ram s2 (?sp + 3) = ram ?s1 (?sp + 3)" "ram s2 (?sp + 4) = ram ?s1 (?sp + 4)"
      by blast+
    have m: "ram s2 0 = ram s2 0" "ram s2 1 = ?sp + 5" "ram s2 2 = ?sp - ?N"
      using f2(1,2) k1(2,3) by (simp_all only: frame_cells(11))
    have cells: "ram s2 ?sp = ?wret" "ram s2 (?sp + 1) = ram s 1" "ram s2 (?sp + 2) = ram s 2"
      "ram s2 (?sp + 3) = ram s 3" "ram s2 (?sp + 4) = ram s 4"
      using f2(3-7) k1(8-12) by (simp_all only:)
    let ?t1 = "ram s2 0 - 1"
    let ?M3 = "(ram s2)(13 := ram s2 ?sp, 0 := ?t1, ?sp - ?N := ram s2 ?t1, 0 := ?sp - ?N + 1,
                 4 := ram s2 (?sp + 4), 3 := ram s2 (?sp + 3), 2 := ram s2 (?sp + 2),
                 1 := ram s2 (?sp + 1))"
    let ?s3 = "\<lparr>areg = ram s2 ?sp, dreg = ram s2 (?sp + 1), ram = ?M3, pc = unat (ram s2 ?sp)\<rparr>"
    have e3: "exec 52 rom s2 = Some ?s3"
      by (rule return_exec [OF cd(3) cd(4) cd(6) pc2 d2 top_cell [OF sp16 top]
            frame_cells(1-5) refl m])
    have M3: "ram ?s3 = ?M3" by simp
    note k3 = return_frame_lookup [OF d3 M3]
    from exec_trans [OF exec_trans [OF e1 ek] e3]
    have e: "exec (60 + k + 52) rom s = Some ?s3" .
    have p3: "pc ?s3 = p + 12" using cells(1) cd(8) by simp
    have top3: "ram ?s3 0 - 1 = ?sp - ?N" using k3(1) by (simp only: frame_cells(10))
    have u3: "unat (ram ?s3 0) = unat ?sp - nat n + 1"
      using k3(1) new_top [OF spN sp(2)] uN by simp
    have r3: "ram ?s3 1 = ram s 1" "ram ?s3 2 = ram s 2" "ram ?s3 3 = ram s 3" "ram ?s3 4 = ram s 4"
      using k3(2-5) cells(2-5) by (simp_all only:)
    have v3: "ram ?s3 (ram ?s3 0 - 1) = ram s2 (ram s2 0 - 1)"
      using k3(6) by (simp only: top3)
    have o3: "\<forall>x. x \<notin> {0, 1, 2, 3, 4, 13, ram ?s3 0 - 1} \<longrightarrow> ram ?s3 x = ram s2 x"
      using k3(7) by (simp only: top3)
    from e p3 u3 r3 v3 o3 show ?thesis by blast
  qed
  have c1: "ram ?s1 13 = ?wf" "ram ?s1 14 = ?N" "ram ?s1 ?sp = ?wret"
    "ram ?s1 (?sp + 1) = ram s 1" "ram ?s1 (?sp + 2) = ram s 2"
    "ram ?s1 (?sp + 3) = ram s 3" "ram ?s1 (?sp + 4) = ram s 4"
    "ram ?s1 0 = ?sp + 5" "ram ?s1 1 = ?sp + 5" "ram ?s1 2 = ?sp + 5 - ?N - 5"
    "ram ?s1 3 = ram s 3" "ram ?s1 4 = ram s 4"
    "\<forall>x. x \<notin> {0, 1, 2, 13, 14, ?sp, ?sp + 1, ?sp + 2, ?sp + 3, ?sp + 4} \<longrightarrow> ram ?s1 x = ram s x"
    by (rule k1)+
  have general: "\<exists>s1. exec 60 rom s = Some s1 \<and> pc s1 = f \<and>
           ram s1 13 = word_of_nat f \<and> ram s1 14 = word_of_int n \<and>
           ram s1 (ram s 0) = word_of_nat (p + 12) \<and>
           ram s1 (ram s 0 + 1) = ram s 1 \<and> ram s1 (ram s 0 + 2) = ram s 2 \<and>
           ram s1 (ram s 0 + 3) = ram s 3 \<and> ram s1 (ram s 0 + 4) = ram s 4 \<and>
           ram s1 0 = ram s 0 + 5 \<and> ram s1 1 = ram s 0 + 5 \<and>
           ram s1 2 = ram s 0 + 5 - word_of_int n - 5 \<and>
           ram s1 3 = ram s 3 \<and> ram s1 4 = ram s 4 \<and>
           (\<forall>x. x \<notin> {0, 1, 2, 13, 14, ram s 0, ram s 0 + 1, ram s 0 + 2, ram s 0 + 3, ram s 0 + 4}
              \<longrightarrow> ram s1 x = ram s x) \<and>
           (\<forall>k s2. exec k rom s1 = Some s2 \<and> pc s2 = q \<and>
                   (\<forall>x\<in>{1, 2, ram s 0, ram s 0 + 1, ram s 0 + 2, ram s 0 + 3, ram s 0 + 4}.
                      ram s2 x = ram s1 x) \<and>
                   unat (ram s 0) + 5 \<le> unat (ram s2 0) \<longrightarrow>
              (\<exists>s'. exec (60 + k + 52) rom s = Some s' \<and> pc s' = p + 12 \<and>
                    unat (ram s' 0) = unat (ram s 0) - nat n + 1 \<and>
                    ram s' 1 = ram s 1 \<and> ram s' 2 = ram s 2 \<and>
                    ram s' 3 = ram s 3 \<and> ram s' 4 = ram s 4 \<and>
                    ram s' (ram s' 0 - 1) = ram s2 (ram s2 0 - 1) \<and>
                    (\<forall>x. x \<notin> {0, 1, 2, 3, 4, 13, ram s' 0 - 1} \<longrightarrow> ram s' x = ram s2 x)))"
    apply (rule exI [of _ ?s1])
    apply (intro conjI)
                   apply (rule e1 pc1 c1)+
    using ret by blast
  have at_once: "\<exists>s'. exec 112 rom s = Some s' \<and> pc s' = p + 12 \<and>
                  unat (ram s' 0) = unat (ram s 0) - nat n + 1 \<and>
                  ram s' 1 = ram s 1 \<and> ram s' 2 = ram s 2 \<and>
                  ram s' 3 = ram s 3 \<and> ram s' 4 = ram s 4 \<and>
                  ram s' (ram s' 0 - 1) = ram s 4" if qf: "q = f"
  proof -
    have e0: "exec 0 rom ?s1 = Some ?s1" by (simp add: exec.simps)
    have pq: "pc ?s1 = q" using pc1 qf by simp
    have same: "\<forall>x\<in>{1, 2, ?sp, ?sp + 1, ?sp + 2, ?sp + 3, ?sp + 4}. ram ?s1 x = ram ?s1 x"
      by blast
    have "unat (?sp + 5) = unat ?sp + unat (5 :: 16 word)"
      using sp(2) by (intro unat_plus_small) simp
    then have top: "unat ?sp + 5 \<le> unat (ram ?s1 0)"
      by (simp only: c1(8)) simp
    from ret [OF e0 pq same top]
    obtain s' where e: "exec (60 + 0 + 52) rom s = Some s'" and r: "pc s' = p + 12"
      "unat (ram s' 0) = unat ?sp - nat n + 1"
      "ram s' 1 = ram s 1" "ram s' 2 = ram s 2" "ram s' 3 = ram s 3" "ram s' 4 = ram s 4"
      and v: "ram s' (ram s' 0 - 1) = ram ?s1 (ram ?s1 0 - 1)"
      by blast
    have "ram ?s1 (ram ?s1 0 - 1) = ram s 4"
      by (simp only: c1(8) frame_cells(2) c1(7))
    with v have v': "ram s' (ram s' 0 - 1) = ram s 4" by simp
    from e have "exec 112 rom s = Some s'" by simp
    with r v' show ?thesis by blast
  qed
  from general at_once show ?thesis by blast
qed

lemma call_example_lines:
  "lines_of (hd createReturnRoutine) @ lines_of (hd createCallRoutine)
     @ lines_of (block (callFunction_lines (initial_globals ''Prog'' False False False) ''Main.f'' 1))
     @ lines_of (block (function_lines (initial_globals ''Prog'' False False False) ''Main.f'' 0))
     @ lines_of returnFromFunction
   = [''(RETURN)'', ''@5'', ''D=A'', ''@LCL'', ''A=M-D'', ''D=M'', ''@R13'',
      ''M=D'', ''@SP'', ''M=M-1'', ''A=M'', ''D=M'', ''@ARG'', ''A=M'', ''M=D'',
      ''@ARG'', ''D=M+1'', ''@SP'', ''M=D'', ''@LCL'', ''A=M-1'', ''D=M'',
      ''@THAT'', ''M=D'', ''@LCL'', ''D=M'', ''@2'', ''D=D-A'', ''A=D'',
      ''D=M'', ''@THIS'', ''M=D'', ''@LCL'', ''D=M'', ''@3'', ''D=D-A'',
      ''A=D'', ''D=M'', ''@ARG'', ''M=D'', ''@LCL'', ''D=M'', ''@4'', ''D=D-A'',
      ''A=D'', ''D=M'', ''@LCL'', ''M=D'', ''@R13'', ''A=M'', ''0;JMP'',
      ''(CALL)'', ''@SP'', ''A=M'', ''M=D'', ''@SP'', ''M=M+1'', ''@LCL'',
      ''D=M'', ''@SP'', ''A=M'', ''M=D'', ''@SP'', ''M=M+1'', ''@ARG'', ''D=M'',
      ''@SP'', ''A=M'', ''M=D'', ''@SP'', ''M=M+1'', ''@THIS'', ''D=M'',
      ''@SP'', ''A=M'', ''M=D'', ''@SP'', ''M=M+1'', ''@THAT'', ''D=M'',
      ''@SP'', ''A=M'', ''M=D'', ''@SP'', ''M=M+1'', ''@SP'', ''D=M'', ''@R14'',
      ''D=D-M'', ''@5'', ''D=D-A'', ''@ARG'', ''M=D'', ''@SP'', ''D=M'',
      ''@LCL'', ''M=D'', ''@R13'', ''A=M'', ''0;JMP'', ''@Prog.Main.f'',
      ''D=A'', ''@R13'', ''M=D'', ''@1'', ''D=A'', ''@R14'', ''M=D'',
      ''@Prog.Sys.init$ret0'', ''D=A'', ''@CALL'', ''0;JMP'',
      ''(Prog.Sys.init$ret0)'', ''(Prog.Main.f)'', ''@RETURN'', ''0;JMP'']"
  by code_simp

lemma call_example_rom:
  "\<exists>rom. assemble
     [''(RETURN)'', ''@5'', ''D=A'', ''@LCL'', ''A=M-D'', ''D=M'', ''@R13'',
      ''M=D'', ''@SP'', ''M=M-1'', ''A=M'', ''D=M'', ''@ARG'', ''A=M'', ''M=D'',
      ''@ARG'', ''D=M+1'', ''@SP'', ''M=D'', ''@LCL'', ''A=M-1'', ''D=M'',
      ''@THAT'', ''M=D'', ''@LCL'', ''D=M'', ''@2'', ''D=D-A'', ''A=D'',
      ''D=M'', ''@THIS'', ''M=D'', ''@LCL'', ''D=M'', ''@3'', ''D=D-A'',
      ''A=D'', ''D=M'', ''@ARG'', ''M=D'', ''@LCL'', ''D=M'', ''@4'', ''D=D-A'',
      ''A=D'', ''D=M'', ''@LCL'', ''M=D'', ''@R13'', ''A=M'', ''0;JMP'',
      ''(CALL)'', ''@SP'', ''A=M'', ''M=D'', ''@SP'', ''M=M+1'', ''@LCL'',
      ''D=M'', ''@SP'', ''A=M'', ''M=D'', ''@SP'', ''M=M+1'', ''@ARG'', ''D=M'',
      ''@SP'', ''A=M'', ''M=D'', ''@SP'', ''M=M+1'', ''@THIS'', ''D=M'',
      ''@SP'', ''A=M'', ''M=D'', ''@SP'', ''M=M+1'', ''@THAT'', ''D=M'',
      ''@SP'', ''A=M'', ''M=D'', ''@SP'', ''M=M+1'', ''@SP'', ''D=M'', ''@R14'',
      ''D=D-M'', ''@5'', ''D=D-A'', ''@ARG'', ''M=D'', ''@SP'', ''D=M'',
      ''@LCL'', ''M=D'', ''@R13'', ''A=M'', ''0;JMP'', ''@Prog.Main.f'',
      ''D=A'', ''@R13'', ''M=D'', ''@1'', ''D=A'', ''@R14'', ''M=D'',
      ''@Prog.Sys.init$ret0'', ''D=A'', ''@CALL'', ''0;JMP'',
      ''(Prog.Sys.init$ret0)'', ''(Prog.Main.f)'', ''@RETURN'', ''0;JMP''] = Some rom"
  by (simp add: assemble_def asm_eval address_instr_def dec_val_def digit_val_def)

theorem call_return_restores_frame_witness:
  "callFunction (initial_globals ''Prog'' False False False) ''Main.f'' ''1''
     = Inr (block (callFunction_lines (initial_globals ''Prog'' False False False) ''Main.f'' 1),
            (initial_globals ''Prog'' False False False)
              \<lparr>funcStack := \<lparr>current = ''Sys.init'', returnCounter = 1\<rparr>\<rparr>) \<and>
   function_cmd (initial_globals ''Prog'' False False False) ''Main.f'' ''0''
     = Inr (block (function_lines (initial_globals ''Prog'' False False False) ''Main.f'' 0),
            (initial_globals ''Prog'' False False False)
              \<lparr>funcStack := \<lparr>current = ''Main.f'', returnCounter = 0\<rparr>\<rparr>) \<and>
   (\<exists>rom s'.
      assemble (lines_of (hd createReturnRoutine) @ lines_of (hd createCallRoutine)
         @ lines_of (block (callFunction_lines (initial_globals ''Prog'' False False False) ''Main.f'' 1))
         @ lines_of (block (function_lines (initial_globals ''Prog'' False False False) ''Main.f'' 0))
         @ lines_of returnFromFunction) = Some rom \<and>
      exec 112 rom
        \<lparr>areg = 0, dreg = 0,
           ram = (\<lambda>a. 0)(0 := 257, 1 := 300, 2 := 400, 3 := 3000, 4 := 4000, 256 := 7), pc = 98\<rparr>
        = Some s' \<and>
      pc s' = 110 \<and> ram s' 0 = 257 \<and> ram s' 1 = 300 \<and> ram s' 2 = 400 \<and> ram s' 3 = 3000 \<and>
      ram s' 4 = 4000 \<and> ram s' 256 = 4000)"
proof -
  let ?G = "initial_globals ''Prog'' False False False"
  let ?R = "lines_of (hd createReturnRoutine)"
  let ?C = "lines_of (hd createCallRoutine)"
  let ?S = "lines_of (block (callFunction_lines ?G ''Main.f'' 1))"
  let ?E = "lines_of (block (function_lines ?G ''Main.f'' 0))"
  let ?Q = "lines_of returnFromFunction"
  let ?s = "\<lparr>areg = 0, dreg = 0,
      ram = (\<lambda>a. 0)(0 := 257, 1 := 300, 2 := 400, 3 := 3000, 4 := 4000, 256 := (7 :: 16 word)), pc = 98\<rparr>"
  obtain rom where a: "assemble (?R @ ?C @ ?S @ ?E @ ?Q) = Some rom"
    unfolding call_example_lines using call_example_rom by blast
  have c: "callFunction ?G ''Main.f'' ''1''
      = Inr (block (callFunction_lines ?G ''Main.f'' 1),
             ?G\<lparr>funcStack := \<lparr>current = ''Sys.init'', returnCounter = 1\<rparr>\<rparr>)"
    by code_simp
  have f: "function_cmd ?G ''Main.f'' ''0''
      = Inr (block (function_lines ?G ''Main.f'' 0),
             ?G\<lparr>funcStack := \<lparr>current = ''Main.f'', returnCounter = 0\<rparr>\<rparr>)"
    by code_simp
  have n: "Atoi ''1'' = Some 1" "(0 :: int) \<le> 1" by code_simp simp
  have nonl: "nl \<notin> set (getFolderName ?G)" "nl \<notin> set ''Main.f''" "nl \<notin> set (current (funcStack ?G))"
    by (simp_all add: getFolderName_def path_Base_def initial_globals_def nl_def)
  have sz: "instr_count ?R = 50" "instr_count ?C = 48" "instr_count ?S = 12" "instr_count ?E = 0"
    by code_simp+
  have c1: "code_at (?R @ ?C @ ?S @ ?E @ ?Q) 98 ?S"
    unfolding code_at_def
    by (rule exI [of _ "?R @ ?C"], rule exI [of _ "?E @ ?Q"]) (simp add: instr_count_def sz [unfolded instr_count_def])
  have c2: "code_at (?R @ ?C @ ?S @ ?E @ ?Q) 50 ?C"
    unfolding code_at_def
    by (rule exI [of _ "?R"], rule exI [of _ "?S @ ?E @ ?Q"]) (simp add: sz)
  have c3: "code_at (?R @ ?C @ ?S @ ?E @ ?Q) 0 ?R"
    unfolding code_at_def
    by (rule exI [of _ "[]"], rule exI [of _ "?C @ ?S @ ?E @ ?Q"]) (simp add: instr_count_def)
  have c4: "code_at (?R @ ?C @ ?S @ ?E @ ?Q) 110 ?E"
    unfolding code_at_def
    by (rule exI [of _ "?R @ ?C @ ?S"], rule exI [of _ "?Q"]) (simp add: instr_count_def sz [unfolded instr_count_def])
  have c5: "code_at (?R @ ?C @ ?S @ ?E @ ?Q) 110 ?Q"
    unfolding code_at_def
    by (rule exI [of _ "?R @ ?C @ ?S @ ?E"], rule exI [of _ "[]"]) (simp add: instr_count_def sz [unfolded instr_count_def])
  have q: "pc ?s = 98" by simp
  have u: "nat 1 + 16 \<le> unat (ram ?s 0)" "unat (ram ?s 0) + 5 < 65536" by simp_all
  note t = call_return_restores_frame [OF a c n nonl f refl c1 c2 c3 c4 c5 q u]
  from t obtain s'' where e'': "exec 112 rom ?s = Some s''" and v'': "ram s'' (ram s'' 0 - 1) = ram ?s 4"
    by blast
  from t obtain s1 where s1: "exec 60 rom ?s = Some s1" "pc s1 = 110"
    and ret: "\<forall>k s2. exec k rom s1 = Some s2 \<and> pc s2 = 110 \<and>
                   (\<forall>x\<in>{1, 2, ram ?s 0, ram ?s 0 + 1, ram ?s 0 + 2, ram ?s 0 + 3, ram ?s 0 + 4}.
                      ram s2 x = ram s1 x) \<and>
                   unat (ram ?s 0) + 5 \<le> unat (ram s2 0) \<longrightarrow>
              (\<exists>s'. exec (60 + k + 52) rom ?s = Some s' \<and> pc s' = 98 + 12 \<and>
                    unat (ram s' 0) = unat (ram ?s 0) - nat 1 + 1 \<and>
                    ram s' 1 = ram ?s 1 \<and> ram s' 2 = ram ?s 2 \<and>
                    ram s' 3 = ram ?s 3 \<and> ram s' 4 = ram ?s 4 \<and>
                    ram s' (ram s' 0 - 1) = ram s2 (ram s2 0 - 1) \<and>
                    (\<forall>x. x \<notin> {0, 1, 2, 3, 4, 13, ram s' 0 - 1} \<longrightarrow> ram s' x = ram s2 x))"
    and sp1: "ram s1 0 = ram ?s 0 + 5"
    by blast
  have e0: "exec 0 rom s1 = Some s1" by (simp add: exec.simps)
  have top: "unat (ram ?s 0) + 5 \<le> unat (ram s1 0)" unfolding sp1 by simp
  from ret [rule_format, of 0 s1] e0 s1(2) top
  obtain s' where e: "exec (60 + 0 + 52) rom ?s = Some s'" and p: "pc s' = 98 + 12"
    and u0: "unat (ram s' 0) = unat (ram ?s 0) - nat 1 + 1"
    and r: "ram s' 1 = ram ?s 1" "ram s' 2 = ram ?s 2" "ram s' 3 = ram ?s 3" "ram s' 4 = ram ?s 4"
    and v: "ram s' (ram s' 0 - 1) = ram s1 (ram s1 0 - 1)"
    by blast
  from u0 have "unat (ram s' 0) = unat (257 :: 16 word)" by simp
  then have sp': "ram s' 0 = 257" by (simp only: word_unat_eq_iff)
  from e have e': "exec 112 rom ?s = Some s'" by simp
  with e'' have "s'' = s'" by simp
  with v'' have "ram s' (ram s' 0 - 1) = ram ?s 4" by simp
  then have v': "ram s' 256 = 4000" unfolding sp' by simp
  from a c f e' p sp' r v' show ?thesis by auto
qed

end
